theory Spec2Isabelle
  imports Complex_Main "HOL-Library.Word"
begin

section \<open>The viewer of src/main.py as a state-passing model\<close>

text \<open>
  The program is one class, \<open>PDFViewer\<close>, whose methods mutate its attributes and
  the Qt widgets it owns. The model is a record of that state and one function per
  method, taking the state and giving the new one, together with the exception when the
  method leaves by one. What the methods ask of the two libraries (PyMuPDF, imported as
  \<open>fitz\<close>, and Qt) is made explicit:
  \<^item> a page is the function from the zoom factor to the result of
    \<open>page.get_pixmap(matrix=Matrix(z, z), alpha=False)\<close>, \<open>None\<close> when that call raises;
  \<^item> \<open>fitz.open\<close> is a parameter of \<open>open_file\<close>: the pages of the file, \<open>None\<close>
    when it raises;
  \<^item> the file dialog's answer is the \<open>file_path\<close> argument of \<open>open_file\<close>;
  \<^item> the height Qt has given to a widget of the layout, \<open>widget.height()\<close>, is a
    parameter \<open>h\<close> of \<open>scroll_to_page\<close> and of every method that reaches it;
  \<^item> the message boxes shown are collected in \<open>messages\<close>, the calls of
    \<open>get_pixmap\<close> are counted in \<open>rasterized\<close>.
  Python's \<open>float\<close> zoom factor is taken as a real number, its \<open>int\<close> page numbers as
  \<open>int\<close>. Window titles, button texts, labels and style sheets carry no logic and are
  left out.
\<close>

subsection \<open>Data\<close>

type_synonym byte = "8 word"

text \<open>A \<open>fitz.Pixmap\<close> without alpha: the sample bytes and the geometry the source reads.\<close>

record pixmap =
  samples :: "byte list"
  width :: nat
  height :: nat
  stride :: nat

type_synonym page = "real \<Rightarrow> pixmap option"

text \<open>A \<open>fitz.Document\<close>: its pages, and whether \<open>close\<close> has been called on it.\<close>

record document =
  doc_pages :: "page list"
  is_closed :: bool

text \<open>
  An item of \<open>pages_layout\<close>: a \<open>QLabel\<close> showing a pixmap, or the stretch added after
  the last page, whose \<open>widget()\<close> is \<open>None\<close>.
\<close>

datatype layout_item = LabelItem pixmap | StretchItem

text \<open>
  What Qt answers to \<open>self.pages_layout.itemAt(i).widget().height()\<close>: the height of
  the widget of item \<open>i\<close> in a layout with the given items.
\<close>

type_synonym heights = "layout_item list \<Rightarrow> nat \<Rightarrow> nat"

datatype message = Critical | Warning

datatype error = ValueError | RenderError | AttributeError

datatype key =
  Key_Right | Key_Down | Key_PageDown | Key_Space
  | Key_Left | Key_Up | Key_PageUp
  | Key_Home | Key_End
  | Key_Plus | Key_Equal | Key_Minus
  | Key_I | Key_P | Key_Other

record viewer =
  pdf_document :: "document option"
  current_page :: int
  zoom_level :: real
  invert_colors :: bool
  page_images :: "pixmap list"
  pages_layout :: "layout_item list"
  scroll_value :: int
  spin_minimum :: int
  spin_maximum :: int
  spin_value :: int
  messages :: "message list"
  rasterized :: nat

text \<open>
  How a method ends: it returns, or it leaves by an exception; either way the window is
  in the state the method has brought it to.
\<close>

datatype outcome = Done viewer | Raised error viewer

fun state_of :: "outcome \<Rightarrow> viewer" where
  "state_of (Done s) = s"
| "state_of (Raised e s) = s"

fun raised :: "outcome \<Rightarrow> error option" where
  "raised (Done s) = None"
| "raised (Raised e s) = Some e"

text \<open>
  \<open>__init__\<close> and \<open>init_ui\<close>: no document, page 0, zoom 1.0, inversion on, an empty
  gallery. A fresh \<open>QSpinBox\<close> has the range 0..99 and the value 0; \<open>setMinimum(1)\<close>
  moves the value to 1 before the slot is connected.
\<close>

definition init_viewer :: viewer where
  "init_viewer =
     \<lparr>pdf_document = None, current_page = 0, zoom_level = 1.0, invert_colors = True,
      page_images = [], pages_layout = [], scroll_value = 0,
      spin_minimum = 1, spin_maximum = 99, spin_value = 1,
      messages = [], rasterized = 0\<rparr>"

text \<open>
  The test \<open>if self.pdf_document\<close>. Python takes \<open>None\<close> as false; for an object
  that has a length it takes the length, and the source takes \<open>len\<close> of the document,
  its page count. PyMuPDF raises \<open>ValueError\<close> when the page count of a closed
  document is asked for. So the test raises for a closed handle, fails for a document
  without pages and succeeds for an open document with a page.
\<close>

datatype truth = Raises error | Falsy | Truthy document

definition truthy :: "document option \<Rightarrow> truth" where
  "truthy doc =
     (case doc of
        None \<Rightarrow> Falsy
      | Some d \<Rightarrow>
          if is_closed d then Raises ValueError
          else if doc_pages d = [] then Falsy
          else Truthy d)"

text \<open>\<open>self.pages_layout.setSpacing(10)\<close>\<close>

definition spacing :: int where
  "spacing = 10"

subsection \<open>Rendering\<close>

text \<open>
  Modelled from the spec: \<open>QImage.invertPixels\<close> is Qt's code, not this repository's.
  The spec gives it as: every pixel channel value \<open>c\<close> is replaced by \<open>255 - c\<close>.
  The geometry is left as it is.
\<close>

definition invertPixels :: "pixmap \<Rightarrow> pixmap" where
  "invertPixels img = img\<lparr>samples := map (\<lambda>c. 255 - c) (samples img)\<rparr>"

text \<open>
  The body of the \<open>for\<close> loop of \<open>render_all_pages\<close>, one page per step. An exception
  of \<open>get_pixmap\<close> leaves the loop with the state as it is at that point. The
  \<open>QImage\<close> built over the samples and the \<open>QPixmap\<close> made from it are the same
  bitmap as the \<open>fitz\<close> pixmap, inverted or not.
\<close>

fun render_loop :: "page list \<Rightarrow> viewer \<Rightarrow> outcome" where
  "render_loop [] s = Done s"
| "render_loop (p # ps) s =
     (let s1 = s\<lparr>rasterized := rasterized s + 1\<rparr> in
      case p (zoom_level s1) of
        None \<Rightarrow> Raised RenderError s1
      | Some pix \<Rightarrow>
          let img = (if invert_colors s1 then invertPixels pix else pix) in
          render_loop ps
            (s1\<lparr>page_images := page_images s1 @ [img],
                pages_layout := pages_layout s1 @ [LabelItem img]\<rparr>))"

text \<open>
  \<open>render_all_pages\<close>: the test of the document stands before the \<open>try\<close>, so its
  exception leaves the method; an exception of the loop is caught and shown as a
  warning, and the stretch is not added.
\<close>

definition render_all_pages :: "viewer \<Rightarrow> outcome" where
  "render_all_pages s =
     (case truthy (pdf_document s) of
        Raises e \<Rightarrow> Raised e s
      | Falsy \<Rightarrow> Done s
      | Truthy d \<Rightarrow>
          (case render_loop (doc_pages d) (s\<lparr>pages_layout := [], page_images := []\<rparr>) of
             Done s2 \<Rightarrow> Done (s2\<lparr>pages_layout := pages_layout s2 @ [StretchItem]\<rparr>)
           | Raised e s2 \<Rightarrow> Done (s2\<lparr>messages := messages s2 @ [Warning]\<rparr>)))"

definition render_page :: "viewer \<Rightarrow> outcome" where
  "render_page s = render_all_pages s"

subsection \<open>Navigation\<close>

text \<open>The loop of \<open>scroll_to_page\<close> over \<open>range(page_num)\<close>.\<close>

fun scroll_position_loop :: "heights \<Rightarrow> layout_item list \<Rightarrow> nat list \<Rightarrow> int \<Rightarrow> int" where
  "scroll_position_loop h lay [] pos = pos"
| "scroll_position_loop h lay (i # rest) pos =
     scroll_position_loop h lay rest
       (if i < length lay
        then (case lay ! i of
                LabelItem w \<Rightarrow> pos + (int (h lay i) + spacing)
              | StretchItem \<Rightarrow> pos)
        else pos)"

text \<open>Qt keeps the value of a spin box within its range.\<close>

definition spin_bound :: "viewer \<Rightarrow> int \<Rightarrow> int" where
  "spin_bound s v = max (spin_minimum s) (min (spin_maximum s) v)"

text \<open>
  \<open>scroll_to_page\<close> sets the scroll bar and, with the signals of the spin box blocked,
  the page number shown. \<open>scroll_value\<close> is the position handed to the scroll bar.
\<close>

definition scroll_to_page :: "heights \<Rightarrow> int \<Rightarrow> viewer \<Rightarrow> viewer" where
  "scroll_to_page h page_num s =
     (if page_num < 0 \<or> page_num \<ge> int (length (page_images s)) then s
      else
        let scroll_position = scroll_position_loop h (pages_layout s) [0..<nat page_num] 0 in
        s\<lparr>scroll_value := scroll_position, spin_value := spin_bound s (page_num + 1)\<rparr>)"

definition prev_page :: "heights \<Rightarrow> viewer \<Rightarrow> outcome" where
  "prev_page h s =
     (case truthy (pdf_document s) of
        Raises e \<Rightarrow> Raised e s
      | Falsy \<Rightarrow> Done s
      | Truthy d \<Rightarrow>
          if current_page s > 0
          then Done (scroll_to_page h (current_page s - 1)
                       (s\<lparr>current_page := current_page s - 1\<rparr>))
          else Done s)"

definition next_page :: "heights \<Rightarrow> viewer \<Rightarrow> outcome" where
  "next_page h s =
     (case truthy (pdf_document s) of
        Raises e \<Rightarrow> Raised e s
      | Falsy \<Rightarrow> Done s
      | Truthy d \<Rightarrow>
          if current_page s < int (length (doc_pages d)) - 1
          then Done (scroll_to_page h (current_page s + 1)
                       (s\<lparr>current_page := current_page s + 1\<rparr>))
          else Done s)"

definition jump_to_page :: "heights \<Rightarrow> int \<Rightarrow> viewer \<Rightarrow> outcome" where
  "jump_to_page h page_num s =
     (case truthy (pdf_document s) of
        Raises e \<Rightarrow> Raised e s
      | Falsy \<Rightarrow> Done s
      | Truthy d \<Rightarrow> Done (scroll_to_page h (page_num - 1) (s\<lparr>current_page := page_num - 1\<rparr>)))"

subsection \<open>Zoom and inversion\<close>

definition zoom_in :: "viewer \<Rightarrow> outcome" where
  "zoom_in s = render_page (s\<lparr>zoom_level := min (zoom_level s + 0.2) 5.0\<rparr>)"

definition zoom_out :: "viewer \<Rightarrow> outcome" where
  "zoom_out s = render_page (s\<lparr>zoom_level := max (zoom_level s - 0.2) 0.2\<rparr>)"

definition toggle_color_invert :: "viewer \<Rightarrow> outcome" where
  "toggle_color_invert s = render_page (s\<lparr>invert_colors := \<not> invert_colors s\<rparr>)"

subsection \<open>Events\<close>

text \<open>
  \<open>keyPressEvent\<close>. The class has no method \<open>toggle_auto_play\<close>, so the branch of
  \<open>Key_P\<close> raises \<open>AttributeError\<close>. Any other key goes to the base class.
\<close>

definition keyPressEvent :: "heights \<Rightarrow> key \<Rightarrow> viewer \<Rightarrow> outcome" where
  "keyPressEvent h k s =
     (case truthy (pdf_document s) of
        Raises e \<Rightarrow> Raised e s
      | Falsy \<Rightarrow> Done s
      | Truthy d \<Rightarrow>
          if k \<in> {Key_Right, Key_Down, Key_PageDown, Key_Space} then next_page h s
          else if k \<in> {Key_Left, Key_Up, Key_PageUp} then prev_page h s
          else if k = Key_Home then render_page (s\<lparr>current_page := 0\<rparr>)
          else if k = Key_End
            then render_page (s\<lparr>current_page := int (length (doc_pages d)) - 1\<rparr>)
          else if k = Key_Plus \<or> k = Key_Equal then zoom_in s
          else if k = Key_Minus then zoom_out s
          else if k = Key_I then toggle_color_invert s
          else if k = Key_P then Raised AttributeError s
          else Done s)"

text \<open>\<open>wheelEvent\<close>, from whether Ctrl alone is held and the vertical angle delta.\<close>

definition wheelEvent :: "bool \<Rightarrow> int \<Rightarrow> viewer \<Rightarrow> outcome" where
  "wheelEvent ctrl delta s =
     (case truthy (pdf_document s) of
        Raises e \<Rightarrow> Raised e s
      | Falsy \<Rightarrow> Done s
      | Truthy d \<Rightarrow> if ctrl then (if delta > 0 then zoom_in s else zoom_out s) else Done s)"

subsection \<open>The page spin box\<close>

text \<open>
  The spin box is connected to \<open>jump_to_page\<close>: a call of \<open>setMaximum\<close> or \<open>setValue\<close>
  that changes its value runs the slot with the new value. \<open>setMaximum\<close> lowers the
  minimum too when the new maximum is below it. The user's editing of the spin box is
  \<open>spin_setValue\<close> as well.
\<close>

definition spin_setMaximum :: "heights \<Rightarrow> int \<Rightarrow> viewer \<Rightarrow> outcome" where
  "spin_setMaximum h m s =
     (let s1 = s\<lparr>spin_minimum := min (spin_minimum s) m, spin_maximum := m\<rparr>;
          v = spin_bound s1 (spin_value s1)
      in if v \<noteq> spin_value s1 then jump_to_page h v (s1\<lparr>spin_value := v\<rparr>) else Done s1)"

definition spin_setValue :: "heights \<Rightarrow> int \<Rightarrow> viewer \<Rightarrow> outcome" where
  "spin_setValue h v s =
     (let v' = spin_bound s v
      in if v' \<noteq> spin_value s then jump_to_page h v' (s\<lparr>spin_value := v'\<rparr>) else Done s)"

subsection \<open>Opening and closing\<close>

text \<open>\<open>Document.close\<close>\<close>

definition close :: "document \<Rightarrow> document" where
  "close d = d\<lparr>is_closed := True\<rparr>"

text \<open>The \<open>except\<close> clause of \<open>open_file\<close>: the error is shown.\<close>

definition open_failed :: "viewer \<Rightarrow> viewer" where
  "open_failed s = s\<lparr>messages := messages s @ [Critical]\<rparr>"

text \<open>
  The \<open>try\<close> block of \<open>open_file\<close> from \<open>fitz.open\<close> on. The handle \<open>fitz.open\<close>
  gives is not closed. An exception anywhere in the block ends in the \<open>except\<close>
  clause.
\<close>

definition open_new :: "heights \<Rightarrow> (string \<Rightarrow> page list option) \<Rightarrow> string \<Rightarrow> viewer \<Rightarrow> viewer" where
  "open_new h fitz_open file_path s1 =
     (case fitz_open file_path of
        None \<Rightarrow> open_failed s1
      | Some ps \<Rightarrow>
          let s2 = s1\<lparr>pdf_document := Some \<lparr>doc_pages = ps, is_closed = False\<rparr>,
                      current_page := 0\<rparr>;
              page_count = int (length ps)
          in case spin_setMaximum h page_count s2 of
               Raised e s3 \<Rightarrow> open_failed s3
             | Done s3 \<Rightarrow>
                 (case spin_setValue h 1 s3 of
                    Raised e s4 \<Rightarrow> open_failed s4
                  | Done s4 \<Rightarrow>
                      (case render_all_pages s4 of
                         Raised e s5 \<Rightarrow> open_failed s5
                       | Done s5 \<Rightarrow> s5)))"

text \<open>
  \<open>open_file\<close>: an empty \<open>file_path\<close> is a cancelled dialog. The test of the previous
  document and its \<open>close\<close> stand inside the \<open>try\<close>, before \<open>fitz.open\<close>: when the
  test raises, nothing is opened; when \<open>fitz.open\<close> raises, the assignment to
  \<open>self.pdf_document\<close> does not happen, and the handle closed just before stays there.
\<close>

definition open_file :: "heights \<Rightarrow> (string \<Rightarrow> page list option) \<Rightarrow> string \<Rightarrow> viewer \<Rightarrow> viewer" where
  "open_file h fitz_open file_path s =
     (if file_path = [] then s
      else
        case truthy (pdf_document s) of
          Raises e \<Rightarrow> open_failed s
        | Falsy \<Rightarrow> open_new h fitz_open file_path s
        | Truthy old \<Rightarrow>
            open_new h fitz_open file_path (s\<lparr>pdf_document := Some (close old)\<rparr>))"

text \<open>\<open>closeEvent\<close>: the document is closed when the window is.\<close>

definition closeEvent :: "viewer \<Rightarrow> outcome" where
  "closeEvent s =
     (case truthy (pdf_document s) of
        Raises e \<Rightarrow> Raised e s
      | Falsy \<Rightarrow> Done s
      | Truthy d \<Rightarrow> Done (s\<lparr>pdf_document := Some (close d)\<rparr>))"

section \<open>Notions used to state the properties\<close>

text \<open>
  The bitmaps \<open>get_pixmap\<close> gives for the pages of a document at one zoom factor, up to
  the first page on which it raises.
\<close>

fun raster_prefix :: "real \<Rightarrow> page list \<Rightarrow> pixmap list" where
  "raster_prefix z [] = []"
| "raster_prefix z (p # ps) =
     (case p z of None \<Rightarrow> [] | Some pix \<Rightarrow> pix # raster_prefix z ps)"

definition shown :: "bool \<Rightarrow> pixmap \<Rightarrow> pixmap" where
  "shown b pix = (if b then invertPixels pix else pix)"

text \<open>Every page can be rasterized at zoom factor \<open>z\<close>.\<close>

definition loop_ok :: "real \<Rightarrow> page list \<Rightarrow> bool" where
  "loop_ok z ps = (\<forall>p \<in> set ps. p z \<noteq> None)"

text \<open>
  The layout shows the gallery: its first items are the labels of \<open>page_images\<close>, in
  order.
\<close>

definition laid_out :: "viewer \<Rightarrow> bool" where
  "laid_out s =
     (take (length (page_images s)) (pages_layout s) = map LabelItem (page_images s))"

text \<open>
  The last rebuild ran to its end: the layout is the labels of the gallery followed by
  the stretch.
\<close>

definition completed :: "viewer \<Rightarrow> bool" where
  "completed s = (pages_layout s = map LabelItem (page_images s) @ [StretchItem])"

text \<open>
  The gallery is the one a rebuild under the current document and settings gives.
\<close>

definition in_sync :: "viewer \<Rightarrow> bool" where
  "in_sync s = (page_images s = page_images (state_of (render_all_pages s)))"

text \<open>
  A property of Qt's layout, not of the source: in a layout that ends with the stretch,
  the stretch takes the spare room and every label has the height of its pixmap.
\<close>

definition at_size_hint :: "heights \<Rightarrow> bool" where
  "at_size_hint h =
     (\<forall>imgs i. i < length imgs \<longrightarrow> h (map LabelItem imgs @ [StretchItem]) i = height (imgs ! i))"

definition page_count :: "document \<Rightarrow> int" where
  "page_count d = int (length (doc_pages d))"

text \<open>The \<open>clamp(n, lo, hi)\<close> of the spec's \<open>jump(n)\<close>; the source has no such function.\<close>

definition clamp :: "int \<Rightarrow> int \<Rightarrow> int \<Rightarrow> int" where
  "clamp n lo hi = max lo (min n hi)"

text \<open>
  The states the viewer can be in: it starts in \<open>init_viewer\<close>, and every event the
  window reacts to takes it from one state to the next, whether the handler returns or
  raises.
\<close>

inductive reachable :: "(string \<Rightarrow> page list option) \<Rightarrow> viewer \<Rightarrow> bool"
  for fitz_open :: "string \<Rightarrow> page list option" where
  start: "reachable fitz_open init_viewer"
| file_opened:
    "reachable fitz_open s \<Longrightarrow> reachable fitz_open (open_file h fitz_open file_path s)"
| next_clicked: "reachable fitz_open s \<Longrightarrow> reachable fitz_open (state_of (next_page h s))"
| prev_clicked: "reachable fitz_open s \<Longrightarrow> reachable fitz_open (state_of (prev_page h s))"
| spin_edited: "reachable fitz_open s \<Longrightarrow> reachable fitz_open (state_of (spin_setValue h n s))"
| zoomed_in: "reachable fitz_open s \<Longrightarrow> reachable fitz_open (state_of (zoom_in s))"
| zoomed_out: "reachable fitz_open s \<Longrightarrow> reachable fitz_open (state_of (zoom_out s))"
| toggled: "reachable fitz_open s \<Longrightarrow> reachable fitz_open (state_of (toggle_color_invert s))"
| key: "reachable fitz_open s \<Longrightarrow> reachable fitz_open (state_of (keyPressEvent h k s))"
| wheel: "reachable fitz_open s \<Longrightarrow> reachable fitz_open (state_of (wheelEvent ctrl delta s))"

definition shows_gallery :: "viewer \<Rightarrow> bool" where
  "shows_gallery s = (laid_out s \<and> in_sync s)"

text \<open>
  The spin box has the range 1 to the page count and the current page is a page of the
  document.
\<close>

definition page_in_range :: "viewer \<Rightarrow> bool" where
  "page_in_range s =
     (spin_minimum s = 1 \<and> 1 \<le> spin_value s \<and> spin_value s \<le> spin_maximum s \<and>
      (case pdf_document s of
         None \<Rightarrow> True
       | Some d \<Rightarrow>
           spin_maximum s = page_count d \<and> 0 \<le> current_page s \<and>
           current_page s < page_count d))"

subsection \<open>Example inputs\<close>

text \<open>
  A page of native size 1 x \<open>rows\<close> filled with the byte \<open>c\<close>, scaled by the zoom
  factor; a page that cannot be rasterized; a file system with a file of three pages, a
  file whose second page and a file whose third page cannot be rasterized, and a file
  without pages.
\<close>

definition example_page :: "nat \<Rightarrow> byte \<Rightarrow> page" where
  "example_page rows c =
     (\<lambda>z. let w = nat \<lfloor>z\<rfloor>; r = nat \<lfloor>z * real rows\<rfloor>
          in Some \<lparr>samples = replicate (3 * w * r) c, width = w, height = r,
                   stride = 3 * w\<rparr>)"

text \<open>The bitmaps of the example pages at zoom factor 1: one pixel wide, all bytes alike.\<close>

abbreviation rows2 :: "byte \<Rightarrow> pixmap" where
  "rows2 c \<equiv> \<lparr>samples = [c, c, c, c, c, c], width = 1, height = 2, stride = 3\<rparr>"

abbreviation rows3 :: "byte \<Rightarrow> pixmap" where
  "rows3 c \<equiv> \<lparr>samples = [c, c, c, c, c, c, c, c, c], width = 1, height = 3, stride = 3\<rparr>"

abbreviation rows4 :: "byte \<Rightarrow> pixmap" where
  "rows4 c \<equiv>
     \<lparr>samples = [c, c, c, c, c, c, c, c, c, c, c, c], width = 1, height = 4, stride = 3\<rparr>"

definition broken_page :: page where
  "broken_page = (\<lambda>z. None)"

definition example_doc :: document where
  "example_doc =
     \<lparr>doc_pages = [example_page 2 10, example_page 3 20, example_page 4 30],
      is_closed = False\<rparr>"

definition damaged_doc :: document where
  "damaged_doc =
     \<lparr>doc_pages = [example_page 2 10, broken_page, example_page 4 30],
      is_closed = False\<rparr>"

definition torn_doc :: document where
  "torn_doc =
     \<lparr>doc_pages = [example_page 2 10, example_page 3 20, broken_page],
      is_closed = False\<rparr>"

definition example_open :: "string \<Rightarrow> page list option" where
  "example_open path =
     (if path = ''a.pdf'' then Some (doc_pages example_doc)
      else if path = ''damaged.pdf'' then Some (doc_pages damaged_doc)
      else if path = ''torn.pdf'' then Some (doc_pages torn_doc)
      else if path = ''empty.pdf'' then Some []
      else None)"

text \<open>
  A layout as Qt makes it in a viewport 726 pixels high: with a stretch among the items
  every label has the height of its pixmap; without one the labels share the viewport,
  less the spacing between them.
\<close>

definition example_heights :: heights where
  "example_heights lay i =
     (if i < length lay
      then (case lay ! i of
              StretchItem \<Rightarrow> 0
            | LabelItem w \<Rightarrow>
                if StretchItem \<in> set lay then height w
                else (726 - 10 * (length lay - 1)) div length lay)
      else 0)"

definition opened :: viewer where
  "opened = open_file example_heights example_open ''a.pdf'' init_viewer"

definition opened_damaged :: viewer where
  "opened_damaged = open_file example_heights example_open ''damaged.pdf'' init_viewer"

definition opened_torn :: viewer where
  "opened_torn = open_file example_heights example_open ''torn.pdf'' init_viewer"

definition on_last_page :: viewer where
  "on_last_page =
     state_of (next_page example_heights (state_of (next_page example_heights opened)))"

text \<open>Twenty steps of \<open>zoom_in\<close> from 1.0 reach the upper bound 5.0.\<close>

definition at_full_zoom :: viewer where
  "at_full_zoom = ((\<lambda>s. state_of (zoom_in s)) ^^ 20) opened"

text \<open>A file that cannot be opened is chosen while the three-page document is shown.\<close>

definition after_failed_open :: viewer where
  "after_failed_open = open_file example_heights example_open ''missing.pdf'' on_last_page"

text \<open>The file without pages is opened first, then the file of three pages.\<close>

definition after_empty :: viewer where
  "after_empty =
     open_file example_heights example_open ''a.pdf''
       (open_file example_heights example_open ''empty.pdf'' init_viewer)"

section \<open>The test of the document\<close>

lemma truthy_simps [simp]:
  "truthy None = Falsy"
  "is_closed d \<Longrightarrow> truthy (Some d) = Raises ValueError"
  "\<not> is_closed d \<Longrightarrow> doc_pages d = [] \<Longrightarrow> truthy (Some d) = Falsy"
  "\<not> is_closed d \<Longrightarrow> doc_pages d \<noteq> [] \<Longrightarrow> truthy (Some d) = Truthy d"
  by (simp_all add: truthy_def)

lemma truthy_Truthy_iff:
  "truthy doc = Truthy d \<longleftrightarrow> doc = Some d \<and> \<not> is_closed d \<and> doc_pages d \<noteq> []"
  by (auto simp add: truthy_def split: option.splits if_splits)

lemma truthy_Raises_iff:
  "truthy doc = Raises e \<longleftrightarrow> e = ValueError \<and> (\<exists>d. doc = Some d \<and> is_closed d)"
  by (auto simp add: truthy_def split: option.splits if_splits)

lemma truthy_Falsy_iff:
  "truthy doc = Falsy \<longleftrightarrow> (\<forall>d. doc = Some d \<longrightarrow> \<not> is_closed d \<and> doc_pages d = [])"
  by (auto simp add: truthy_def split: option.splits if_splits)

section \<open>The render loop and the rebuild\<close>

lemma loop_ok_simps [simp]:
  "loop_ok z [] = True"
  "loop_ok z (p # ps) = (p z \<noteq> None \<and> loop_ok z ps)"
  by (simp_all add: loop_ok_def)

lemma shown_simps [simp]: "shown False = (\<lambda>pix. pix)" "shown True = invertPixels"
  by (simp_all add: shown_def fun_eq_iff)

lemma invertPixels_fields:
  "width (invertPixels pix) = width pix"
  "height (invertPixels pix) = height pix"
  "stride (invertPixels pix) = stride pix"
  "length (samples (invertPixels pix)) = length (samples pix)"
  "i < length (samples pix) \<Longrightarrow> samples (invertPixels pix) ! i = 255 - samples pix ! i"
  by (simp_all add: invertPixels_def)

lemma raster_prefix_all:
  "loop_ok z ps \<Longrightarrow> length (raster_prefix z ps) = length ps"
  by (induction ps) (auto split: option.splits)

lemma raster_prefix_first_failure:
  assumes "k < length ps" and "(ps ! k) z = None" and "\<forall>j<k. (ps ! j) z \<noteq> None"
  shows "raster_prefix z ps = map (\<lambda>p. the (p z)) (take k ps) \<and> \<not> loop_ok z ps"
  using assms
proof (induction ps arbitrary: k)
  case Nil
  then show ?case by simp
next
  case (Cons p ps)
  show ?case
  proof (cases k)
    case 0
    with Cons.prems show ?thesis by simp
  next
    case (Suc m)
    from Cons.prems(3) Suc have here: "p z \<noteq> None"
      by fastforce
    have "m < length ps" and "(ps ! m) z = None"
      using Cons.prems(1,2) Suc by simp_all
    moreover have "\<forall>j<m. (ps ! j) z \<noteq> None"
    proof (intro allI impI)
      fix j assume "j < m"
      then have "Suc j < k" using Suc by simp
      with Cons.prems(3) have "((p # ps) ! Suc j) z \<noteq> None" by blast
      then show "(ps ! j) z \<noteq> None" by simp
    qed
    ultimately have "raster_prefix z ps = map (\<lambda>p. the (p z)) (take m ps) \<and> \<not> loop_ok z ps"
      by (rule Cons.IH)
    with here Suc show ?thesis by auto
  qed
qed

lemma render_loop_frame:
  "pdf_document (state_of (render_loop ps s)) = pdf_document s \<and>
   current_page (state_of (render_loop ps s)) = current_page s \<and>
   zoom_level (state_of (render_loop ps s)) = zoom_level s \<and>
   invert_colors (state_of (render_loop ps s)) = invert_colors s \<and>
   scroll_value (state_of (render_loop ps s)) = scroll_value s \<and>
   spin_minimum (state_of (render_loop ps s)) = spin_minimum s \<and>
   spin_maximum (state_of (render_loop ps s)) = spin_maximum s \<and>
   spin_value (state_of (render_loop ps s)) = spin_value s \<and>
   messages (state_of (render_loop ps s)) = messages s"
  by (induction ps arbitrary: s) (simp_all add: Let_def split: option.splits)

lemma render_loop_images:
  "page_images (state_of (render_loop ps s)) =
     page_images s @ map (shown (invert_colors s)) (raster_prefix (zoom_level s) ps)"
  by (induction ps arbitrary: s) (simp_all add: Let_def shown_def split: option.splits)

lemma render_loop_layout:
  "pages_layout (state_of (render_loop ps s)) =
     pages_layout s @
     map (\<lambda>pix. LabelItem (shown (invert_colors s) pix)) (raster_prefix (zoom_level s) ps)"
  by (induction ps arbitrary: s) (simp_all add: Let_def shown_def split: option.splits)

lemma render_loop_raised:
  "raised (render_loop ps s) = (if loop_ok (zoom_level s) ps then None else Some RenderError)"
  by (induction ps arbitrary: s) (auto simp add: Let_def split: option.splits)

lemma render_loop_rasterized:
  "rasterized (state_of (render_loop ps s)) =
     rasterized s + (if loop_ok (zoom_level s) ps then length ps
                     else length (raster_prefix (zoom_level s) ps) + 1)"
  by (induction ps arbitrary: s) (auto simp add: Let_def split: option.splits)

lemma not_raised: "raised r = None \<Longrightarrow> r = Done (state_of r)"
  by (cases r) simp_all

text \<open>
  What a rebuild leaves alone, whatever the document; when it raises; and what it does
  with a document that passes the test.
\<close>

lemma render_all_pages_frame:
  "pdf_document (state_of (render_all_pages s)) = pdf_document s \<and>
   current_page (state_of (render_all_pages s)) = current_page s \<and>
   zoom_level (state_of (render_all_pages s)) = zoom_level s \<and>
   invert_colors (state_of (render_all_pages s)) = invert_colors s \<and>
   scroll_value (state_of (render_all_pages s)) = scroll_value s \<and>
   spin_minimum (state_of (render_all_pages s)) = spin_minimum s \<and>
   spin_maximum (state_of (render_all_pages s)) = spin_maximum s \<and>
   spin_value (state_of (render_all_pages s)) = spin_value s"
proof (cases "truthy (pdf_document s)")
  case (Truthy d)
  let ?s1 = "s\<lparr>pages_layout := [], page_images := []\<rparr>"
  note fr = render_loop_frame [of "doc_pages d" ?s1]
  show ?thesis
    using Truthy fr
    by (cases "render_loop (doc_pages d) ?s1") (simp_all add: render_all_pages_def)
qed (simp_all add: render_all_pages_def)

lemma render_all_pages_raised:
  "raised (render_all_pages s) =
     (case truthy (pdf_document s) of Raises e \<Rightarrow> Some e | Falsy \<Rightarrow> None | Truthy d \<Rightarrow> None)"
  by (simp add: render_all_pages_def split: truth.splits outcome.splits)

lemma render_all_pages_unchanged:
  "\<forall>d. truthy (pdf_document s) \<noteq> Truthy d \<Longrightarrow> state_of (render_all_pages s) = s"
  by (simp add: render_all_pages_def split: truth.splits)

lemma render_all_pages_images:
  assumes "pdf_document s = Some d" and "\<not> is_closed d" and "doc_pages d \<noteq> []"
  shows "page_images (state_of (render_all_pages s)) =
           map (shown (invert_colors s)) (raster_prefix (zoom_level s) (doc_pages d))"
proof -
  let ?s1 = "s\<lparr>pages_layout := [], page_images := []\<rparr>"
  note im = render_loop_images [of "doc_pages d" ?s1]
  show ?thesis
    using assms im
    by (cases "render_loop (doc_pages d) ?s1") (simp_all add: render_all_pages_def)
qed

lemma render_all_pages_layout:
  assumes "pdf_document s = Some d" and "\<not> is_closed d" and "doc_pages d \<noteq> []"
  shows "pages_layout (state_of (render_all_pages s)) =
           map LabelItem (page_images (state_of (render_all_pages s))) @
           (if loop_ok (zoom_level s) (doc_pages d) then [StretchItem] else [])"
proof -
  let ?s1 = "s\<lparr>pages_layout := [], page_images := []\<rparr>"
  note im = render_loop_layout [of "doc_pages d" ?s1] render_loop_images [of "doc_pages d" ?s1]
  note ok = render_loop_raised [of "doc_pages d" ?s1]
  show ?thesis
    using assms im ok
    by (cases "render_loop (doc_pages d) ?s1")
      (auto simp add: render_all_pages_def comp_def split: if_splits)
qed

lemma render_all_pages_messages:
  assumes "pdf_document s = Some d" and "\<not> is_closed d" and "doc_pages d \<noteq> []"
  shows "messages (state_of (render_all_pages s)) =
           messages s @ (if loop_ok (zoom_level s) (doc_pages d) then [] else [Warning])"
proof -
  let ?s1 = "s\<lparr>pages_layout := [], page_images := []\<rparr>"
  note fr = render_loop_frame [of "doc_pages d" ?s1]
  note ok = render_loop_raised [of "doc_pages d" ?s1]
  show ?thesis
    using assms fr ok
    by (cases "render_loop (doc_pages d) ?s1")
      (auto simp add: render_all_pages_def split: if_splits)
qed

lemma render_all_pages_rasterized:
  assumes "pdf_document s = Some d" and "\<not> is_closed d" and "doc_pages d \<noteq> []"
  shows "rasterized (state_of (render_all_pages s)) =
           rasterized s +
           (if loop_ok (zoom_level s) (doc_pages d) then length (doc_pages d)
            else length (raster_prefix (zoom_level s) (doc_pages d)) + 1)"
proof -
  let ?s1 = "s\<lparr>pages_layout := [], page_images := []\<rparr>"
  note fr = render_loop_rasterized [of "doc_pages d" ?s1]
  show ?thesis
    using assms fr
    by (cases "render_loop (doc_pages d) ?s1") (simp_all add: render_all_pages_def)
qed

lemma render_page_frame:
  "pdf_document (state_of (render_page s)) = pdf_document s \<and>
   current_page (state_of (render_page s)) = current_page s \<and>
   zoom_level (state_of (render_page s)) = zoom_level s \<and>
   invert_colors (state_of (render_page s)) = invert_colors s \<and>
   scroll_value (state_of (render_page s)) = scroll_value s"
  by (simp add: render_page_def render_all_pages_frame)

section \<open>What navigation leaves alone\<close>

lemma scroll_to_page_frame:
  "pdf_document (scroll_to_page h p s) = pdf_document s \<and>
   current_page (scroll_to_page h p s) = current_page s \<and>
   zoom_level (scroll_to_page h p s) = zoom_level s \<and>
   invert_colors (scroll_to_page h p s) = invert_colors s \<and>
   page_images (scroll_to_page h p s) = page_images s \<and>
   pages_layout (scroll_to_page h p s) = pages_layout s \<and>
   spin_minimum (scroll_to_page h p s) = spin_minimum s \<and>
   spin_maximum (scroll_to_page h p s) = spin_maximum s \<and>
   messages (scroll_to_page h p s) = messages s \<and>
   rasterized (scroll_to_page h p s) = rasterized s"
  by (simp add: scroll_to_page_def Let_def)

lemma jump_to_page_frame:
  "pdf_document (state_of (jump_to_page h n s)) = pdf_document s \<and>
   zoom_level (state_of (jump_to_page h n s)) = zoom_level s \<and>
   invert_colors (state_of (jump_to_page h n s)) = invert_colors s \<and>
   page_images (state_of (jump_to_page h n s)) = page_images s \<and>
   pages_layout (state_of (jump_to_page h n s)) = pages_layout s \<and>
   spin_minimum (state_of (jump_to_page h n s)) = spin_minimum s \<and>
   spin_maximum (state_of (jump_to_page h n s)) = spin_maximum s \<and>
   messages (state_of (jump_to_page h n s)) = messages s \<and>
   rasterized (state_of (jump_to_page h n s)) = rasterized s"
  by (simp add: jump_to_page_def scroll_to_page_frame split: truth.splits)

lemma next_page_frame:
  "pdf_document (state_of (next_page h s)) = pdf_document s \<and>
   zoom_level (state_of (next_page h s)) = zoom_level s \<and>
   invert_colors (state_of (next_page h s)) = invert_colors s \<and>
   page_images (state_of (next_page h s)) = page_images s \<and>
   pages_layout (state_of (next_page h s)) = pages_layout s \<and>
   spin_minimum (state_of (next_page h s)) = spin_minimum s \<and>
   spin_maximum (state_of (next_page h s)) = spin_maximum s \<and>
   messages (state_of (next_page h s)) = messages s \<and>
   rasterized (state_of (next_page h s)) = rasterized s"
  by (simp add: next_page_def scroll_to_page_frame split: truth.splits)

lemma prev_page_frame:
  "pdf_document (state_of (prev_page h s)) = pdf_document s \<and>
   zoom_level (state_of (prev_page h s)) = zoom_level s \<and>
   invert_colors (state_of (prev_page h s)) = invert_colors s \<and>
   page_images (state_of (prev_page h s)) = page_images s \<and>
   pages_layout (state_of (prev_page h s)) = pages_layout s \<and>
   spin_minimum (state_of (prev_page h s)) = spin_minimum s \<and>
   spin_maximum (state_of (prev_page h s)) = spin_maximum s \<and>
   messages (state_of (prev_page h s)) = messages s \<and>
   rasterized (state_of (prev_page h s)) = rasterized s"
  by (simp add: prev_page_def scroll_to_page_frame split: truth.splits)

lemma spin_setMaximum_frame:
  "pdf_document (state_of (spin_setMaximum h m s)) = pdf_document s \<and>
   zoom_level (state_of (spin_setMaximum h m s)) = zoom_level s \<and>
   invert_colors (state_of (spin_setMaximum h m s)) = invert_colors s \<and>
   page_images (state_of (spin_setMaximum h m s)) = page_images s \<and>
   pages_layout (state_of (spin_setMaximum h m s)) = pages_layout s \<and>
   messages (state_of (spin_setMaximum h m s)) = messages s \<and>
   rasterized (state_of (spin_setMaximum h m s)) = rasterized s"
  by (simp add: spin_setMaximum_def Let_def jump_to_page_frame)

lemma spin_setValue_frame:
  "pdf_document (state_of (spin_setValue h v s)) = pdf_document s \<and>
   zoom_level (state_of (spin_setValue h v s)) = zoom_level s \<and>
   invert_colors (state_of (spin_setValue h v s)) = invert_colors s \<and>
   page_images (state_of (spin_setValue h v s)) = page_images s \<and>
   pages_layout (state_of (spin_setValue h v s)) = pages_layout s \<and>
   spin_minimum (state_of (spin_setValue h v s)) = spin_minimum s \<and>
   spin_maximum (state_of (spin_setValue h v s)) = spin_maximum s \<and>
   messages (state_of (spin_setValue h v s)) = messages s \<and>
   rasterized (state_of (spin_setValue h v s)) = rasterized s"
  by (simp add: spin_setValue_def Let_def jump_to_page_frame)

text \<open>A handler raises only at a closed handle, \<open>keyPressEvent\<close> also at the key P.\<close>

lemma jump_to_page_raised:
  "raised (jump_to_page h n s) =
     (case truthy (pdf_document s) of Raises e \<Rightarrow> Some e | Falsy \<Rightarrow> None | Truthy d \<Rightarrow> None)"
  by (simp add: jump_to_page_def split: truth.splits)

lemma spin_setMaximum_raised:
  "\<forall>e. truthy (pdf_document s) \<noteq> Raises e \<Longrightarrow> raised (spin_setMaximum h m s) = None"
  by (simp add: spin_setMaximum_def Let_def jump_to_page_raised split: truth.splits)

lemma spin_setValue_raised:
  "\<forall>e. truthy (pdf_document s) \<noteq> Raises e \<Longrightarrow> raised (spin_setValue h v s) = None"
  by (simp add: spin_setValue_def Let_def jump_to_page_raised split: truth.splits)

lemma current_page_next:
  "pdf_document s = Some d \<Longrightarrow> \<not> is_closed d \<Longrightarrow> doc_pages d \<noteq> [] \<Longrightarrow>
   current_page (state_of (next_page h s)) =
     (if current_page s < page_count d - 1 then current_page s + 1 else current_page s)"
  by (simp add: next_page_def page_count_def scroll_to_page_frame)

lemma current_page_prev:
  "pdf_document s = Some d \<Longrightarrow> \<not> is_closed d \<Longrightarrow> doc_pages d \<noteq> [] \<Longrightarrow>
   current_page (state_of (prev_page h s)) =
     (if current_page s > 0 then current_page s - 1 else current_page s)"
  by (simp add: prev_page_def scroll_to_page_frame)

lemma next_prev_return:
  "pdf_document s = Some d \<Longrightarrow> \<not> is_closed d \<Longrightarrow>
   raised (next_page h s) = None \<and> raised (prev_page h s) = None"
  by (cases "doc_pages d = []") (simp_all add: next_page_def prev_page_def)

lemma current_page_jump:
  "pdf_document s = Some d \<Longrightarrow> \<not> is_closed d \<Longrightarrow> doc_pages d \<noteq> [] \<Longrightarrow>
   current_page (state_of (jump_to_page h n s)) = n - 1"
  by (simp add: jump_to_page_def scroll_to_page_frame)

section \<open>Zoom and inversion\<close>

lemma zoom_level_zoom_in:
  "zoom_level (state_of (zoom_in s)) = min (zoom_level s + 0.2) 5.0"
  by (simp add: zoom_in_def render_page_frame)

lemma zoom_level_zoom_out:
  "zoom_level (state_of (zoom_out s)) = max (zoom_level s - 0.2) 0.2"
  by (simp add: zoom_out_def render_page_frame)

lemma settings_raised:
  "raised (zoom_in s) = raised (render_all_pages s)"
  "raised (zoom_out s) = raised (render_all_pages s)"
  "raised (toggle_color_invert s) = raised (render_all_pages s)"
  by (simp_all add: zoom_in_def zoom_out_def toggle_color_invert_def render_page_def
      render_all_pages_raised)

lemma toggle_color_invert_frame:
  "pdf_document (state_of (toggle_color_invert s)) = pdf_document s \<and>
   current_page (state_of (toggle_color_invert s)) = current_page s \<and>
   zoom_level (state_of (toggle_color_invert s)) = zoom_level s \<and>
   invert_colors (state_of (toggle_color_invert s)) = (\<not> invert_colors s) \<and>
   scroll_value (state_of (toggle_color_invert s)) = scroll_value s"
  by (simp add: toggle_color_invert_def render_page_frame)

lemma toggle_color_invert_images:
  "pdf_document s = Some d \<Longrightarrow> \<not> is_closed d \<Longrightarrow> doc_pages d \<noteq> [] \<Longrightarrow>
   page_images (state_of (toggle_color_invert s)) =
     map (shown (\<not> invert_colors s)) (raster_prefix (zoom_level s) (doc_pages d))"
  by (simp add: toggle_color_invert_def render_page_def render_all_pages_images)

section \<open>Opening a file\<close>

lemma open_file_at_closed:
  "pdf_document s = Some d \<Longrightarrow> is_closed d \<Longrightarrow> file_path \<noteq> [] \<Longrightarrow>
   open_file h fitz_open file_path s = s\<lparr>messages := messages s @ [Critical]\<rparr>"
  by (simp add: open_file_def open_failed_def)

lemma open_new_failure:
  "fitz_open file_path = None \<Longrightarrow>
   open_new h fitz_open file_path s = s\<lparr>messages := messages s @ [Critical]\<rparr>"
  by (simp add: open_new_def open_failed_def)

text \<open>
  The handle \<open>fitz.open\<close> gives is not closed, so nothing in the rest of the \<open>try\<close>
  block raises: the file is opened, the spin box is set and the gallery is rebuilt.
\<close>

lemma open_new_success:
  assumes "fitz_open file_path = Some ps"
  shows "open_new h fitz_open file_path s =
           state_of (render_all_pages
             (state_of (spin_setValue h 1
                (state_of (spin_setMaximum h (int (length ps))
                   (s\<lparr>pdf_document := Some \<lparr>doc_pages = ps, is_closed = False\<rparr>,
                      current_page := 0\<rparr>))))))"
proof -
  let ?d = "\<lparr>doc_pages = ps, is_closed = False\<rparr>"
  let ?s2 = "s\<lparr>pdf_document := Some ?d, current_page := 0\<rparr>"
  let ?r3 = "spin_setMaximum h (int (length ps)) ?s2"
  let ?r4 = "spin_setValue h 1 (state_of ?r3)"
  let ?r5 = "render_all_pages (state_of ?r4)"
  have live: "\<forall>e. truthy (Some ?d) \<noteq> Raises e"
    by (simp add: truthy_def)
  have r3: "?r3 = Done (state_of ?r3)"
    by (rule not_raised) (simp add: spin_setMaximum_raised live)
  have d3: "pdf_document (state_of ?r3) = Some ?d"
    by (simp add: spin_setMaximum_frame)
  have r4: "?r4 = Done (state_of ?r4)"
    by (rule not_raised) (simp add: spin_setValue_raised d3 live)
  have d4: "pdf_document (state_of ?r4) = Some ?d"
    by (simp add: spin_setValue_frame d3)
  have r5: "?r5 = Done (state_of ?r5)"
    by (rule not_raised) (simp add: render_all_pages_raised d4 truthy_def)
  show ?thesis
    unfolding open_new_def assms option.case Let_def
    by (subst r3, simp only: outcome.case, subst r4, simp only: outcome.case, subst r5)
      (simp only: outcome.case state_of.simps)
qed

lemma open_new_frame:
  assumes "fitz_open file_path = Some ps"
  shows "pdf_document (open_new h fitz_open file_path s) =
           Some \<lparr>doc_pages = ps, is_closed = False\<rparr> \<and>
         zoom_level (open_new h fitz_open file_path s) = zoom_level s \<and>
         invert_colors (open_new h fitz_open file_path s) = invert_colors s"
  by (simp add: open_new_success [where fitz_open = fitz_open and file_path = file_path, OF assms] render_all_pages_frame spin_setValue_frame
      spin_setMaximum_frame)

lemma open_new_images:
  assumes "fitz_open file_path = Some ps" and "ps \<noteq> []"
  shows "page_images (open_new h fitz_open file_path s) =
           map (shown (invert_colors s)) (raster_prefix (zoom_level s) ps)"
proof -
  let ?d = "\<lparr>doc_pages = ps, is_closed = False\<rparr>"
  let ?s4 = "state_of (spin_setValue h 1
                (state_of (spin_setMaximum h (int (length ps))
                   (s\<lparr>pdf_document := Some ?d, current_page := 0\<rparr>))))"
  have "pdf_document ?s4 = Some ?d" "zoom_level ?s4 = zoom_level s"
    "invert_colors ?s4 = invert_colors s"
    by (simp_all add: spin_setValue_frame spin_setMaximum_frame)
  then show ?thesis
    using assms(2) render_all_pages_images [of ?s4 ?d]
    by (simp add: open_new_success [where fitz_open = fitz_open and file_path = file_path, OF assms(1)])
qed

section \<open>The scroll position\<close>

lemma scroll_position_loop_labels:
  assumes "\<forall>i \<in> set idxs. i < length lay \<and> lay ! i = LabelItem (imgs ! i)"
  shows "scroll_position_loop h lay idxs pos = pos + (\<Sum>i\<leftarrow>idxs. int (h lay i) + spacing)"
  using assms by (induction idxs arbitrary: pos) simp_all

lemma laid_out_nth:
  assumes "laid_out s" and "i < length (page_images s)"
  shows "i < length (pages_layout s) \<and> pages_layout s ! i = LabelItem (page_images s ! i)"
proof -
  let ?n = "length (page_images s)"
  have eq: "take ?n (pages_layout s) = map LabelItem (page_images s)"
    using assms(1) by (simp add: laid_out_def)
  have "length (take ?n (pages_layout s)) = ?n"
    by (simp add: eq)
  then have len: "?n \<le> length (pages_layout s)"
    by simp
  have "pages_layout s ! i = take ?n (pages_layout s) ! i"
    using assms(2) by simp
  also have "\<dots> = LabelItem (page_images s ! i)"
    using assms(2) by (simp add: eq)
  finally show ?thesis
    using len assms(2) by simp
qed

lemma scroll_value_scroll_to_page:
  assumes "laid_out s" and "0 \<le> p" and "p < int (length (page_images s))"
  shows "scroll_value (scroll_to_page h p s) =
           (\<Sum>i<nat p. int (h (pages_layout s) i) + spacing)"
proof -
  have idx: "\<forall>i \<in> set [0..<nat p].
               i < length (pages_layout s) \<and>
               pages_layout s ! i = LabelItem (page_images s ! i)"
  proof
    fix i assume "i \<in> set [0..<nat p]"
    then have "i < length (page_images s)"
      using assms(3) by simp
    then show "i < length (pages_layout s) \<and>
               pages_layout s ! i = LabelItem (page_images s ! i)"
      by (rule laid_out_nth [OF assms(1)])
  qed
  have "scroll_value (scroll_to_page h p s) =
          scroll_position_loop h (pages_layout s) [0..<nat p] 0"
    using assms(2,3) by (simp add: scroll_to_page_def Let_def)
  also have "\<dots> = (\<Sum>i\<leftarrow>[0..<nat p]. int (h (pages_layout s) i) + spacing)"
    using scroll_position_loop_labels [OF idx, of h 0] by simp
  also have "\<dots> = (\<Sum>i<nat p. int (h (pages_layout s) i) + spacing)"
    by (simp add: interv_sum_list_conv_sum_set_nat atLeast0LessThan)
  finally show ?thesis .
qed

lemma completed_laid_out: "completed s \<Longrightarrow> laid_out s"
  by (simp add: completed_def laid_out_def)

text \<open>A rebuild in which every page is rasterized runs to its end.\<close>

lemma completed_render_all_pages:
  assumes "pdf_document s = Some d" and "\<not> is_closed d" and "doc_pages d \<noteq> []"
    and "loop_ok (zoom_level s) (doc_pages d)"
  shows "completed (state_of (render_all_pages s))"
  using assms by (simp add: completed_def render_all_pages_layout)

lemma laid_out_render_all_pages:
  "laid_out s \<Longrightarrow> laid_out (state_of (render_all_pages s))"
proof (cases "truthy (pdf_document s)")
  case (Truthy d)
  then have "pdf_document s = Some d" "\<not> is_closed d" "doc_pages d \<noteq> []"
    by (simp_all add: truthy_Truthy_iff)
  then show ?thesis
    by (simp add: laid_out_def render_all_pages_layout)
qed (simp_all add: render_all_pages_def)

lemma laid_out_init: "laid_out init_viewer"
  by (simp add: laid_out_def init_viewer_def)

section \<open>What holds in every state the viewer reaches\<close>

text \<open>
  The layout shows the gallery and the gallery is the one the current document and
  settings give: both hold at the start and are kept by every event.
\<close>

lemma in_sync_iff:
  "in_sync s \<longleftrightarrow>
     (case truthy (pdf_document s) of
        Raises e \<Rightarrow> True
      | Falsy \<Rightarrow> True
      | Truthy d \<Rightarrow>
          page_images s =
            map (shown (invert_colors s)) (raster_prefix (zoom_level s) (doc_pages d)))"
proof (cases "truthy (pdf_document s)")
  case (Truthy d)
  then have "pdf_document s = Some d" "\<not> is_closed d" "doc_pages d \<noteq> []"
    by (simp_all add: truthy_Truthy_iff)
  then show ?thesis
    using Truthy by (simp add: in_sync_def render_all_pages_images)
qed (simp_all add: in_sync_def render_all_pages_def)

lemma in_sync_render_all_pages:
  "in_sync (state_of (render_all_pages s))"
proof (cases "truthy (pdf_document s)")
  case (Truthy d)
  then have d: "pdf_document s = Some d" "\<not> is_closed d" "doc_pages d \<noteq> []"
    by (simp_all add: truthy_Truthy_iff)
  then have "truthy (pdf_document (state_of (render_all_pages s))) = Truthy d"
    by (simp add: render_all_pages_frame)
  then show ?thesis
    using d by (simp add: in_sync_iff render_all_pages_images render_all_pages_frame)
next
  case (Raises e)
  then show ?thesis by (simp add: in_sync_iff render_all_pages_def)
next
  case Falsy
  then show ?thesis by (simp add: in_sync_iff render_all_pages_def)
qed

lemma shows_gallery_render_all_pages:
  "laid_out s \<Longrightarrow> shows_gallery (state_of (render_all_pages s))"
  by (simp add: shows_gallery_def laid_out_render_all_pages in_sync_render_all_pages)

lemma shows_gallery_same:
  assumes "shows_gallery s"
    and "\<forall>d'. truthy (pdf_document s') = Truthy d' \<longrightarrow>
           (\<exists>d. truthy (pdf_document s) = Truthy d \<and> doc_pages d = doc_pages d')"
    and "zoom_level s' = zoom_level s" and "invert_colors s' = invert_colors s"
    and "page_images s' = page_images s" and "pages_layout s' = pages_layout s"
  shows "shows_gallery s'"
proof -
  have "laid_out s'"
    using assms(1,5,6) by (simp add: shows_gallery_def laid_out_def)
  moreover have "in_sync s'"
  proof (cases "truthy (pdf_document s')")
    case (Truthy d')
    with assms(2) obtain d where "truthy (pdf_document s) = Truthy d"
      and "doc_pages d = doc_pages d'"
      by blast
    then show ?thesis
      using assms(1,3,4,5) Truthy by (simp add: shows_gallery_def in_sync_iff)
  qed (simp_all add: in_sync_iff)
  ultimately show ?thesis
    by (simp add: shows_gallery_def)
qed

lemma shows_gallery_settings:
  assumes "shows_gallery s"
  shows "shows_gallery (state_of (render_page (s\<lparr>zoom_level := z\<rparr>)))"
    and "shows_gallery (state_of (render_page (s\<lparr>invert_colors := b\<rparr>)))"
    and "shows_gallery (state_of (render_page (s\<lparr>current_page := n\<rparr>)))"
proof -
  have lay: "laid_out s"
    using assms by (simp add: shows_gallery_def)
  have "laid_out (s\<lparr>zoom_level := z\<rparr>)"
    using lay by (simp add: laid_out_def)
  then show "shows_gallery (state_of (render_page (s\<lparr>zoom_level := z\<rparr>)))"
    unfolding render_page_def by (rule shows_gallery_render_all_pages)
  have "laid_out (s\<lparr>invert_colors := b\<rparr>)"
    using lay by (simp add: laid_out_def)
  then show "shows_gallery (state_of (render_page (s\<lparr>invert_colors := b\<rparr>)))"
    unfolding render_page_def by (rule shows_gallery_render_all_pages)
  have "laid_out (s\<lparr>current_page := n\<rparr>)"
    using lay by (simp add: laid_out_def)
  then show "shows_gallery (state_of (render_page (s\<lparr>current_page := n\<rparr>)))"
    unfolding render_page_def by (rule shows_gallery_render_all_pages)
qed

lemma shows_gallery_next: "shows_gallery s \<Longrightarrow> shows_gallery (state_of (next_page h s))"
  by (erule shows_gallery_same) (simp_all add: next_page_frame)

lemma shows_gallery_prev: "shows_gallery s \<Longrightarrow> shows_gallery (state_of (prev_page h s))"
  by (erule shows_gallery_same) (simp_all add: prev_page_frame)

lemma shows_gallery_spin: "shows_gallery s \<Longrightarrow> shows_gallery (state_of (spin_setValue h n s))"
  by (erule shows_gallery_same) (simp_all add: spin_setValue_frame)

lemma shows_gallery_zoom:
  "shows_gallery s \<Longrightarrow>
   shows_gallery (state_of (zoom_in s)) \<and> shows_gallery (state_of (zoom_out s))"
  by (simp add: zoom_in_def zoom_out_def shows_gallery_settings)

lemma shows_gallery_toggle:
  "shows_gallery s \<Longrightarrow> shows_gallery (state_of (toggle_color_invert s))"
  by (simp add: toggle_color_invert_def shows_gallery_settings)

lemma shows_gallery_key:
  "shows_gallery s \<Longrightarrow> shows_gallery (state_of (keyPressEvent h k s))"
  by (cases "truthy (pdf_document s)")
    (simp_all add: keyPressEvent_def shows_gallery_next shows_gallery_prev
      shows_gallery_zoom shows_gallery_toggle shows_gallery_settings)

lemma shows_gallery_wheel:
  "shows_gallery s \<Longrightarrow> shows_gallery (state_of (wheelEvent ctrl delta s))"
  by (simp add: wheelEvent_def shows_gallery_zoom split: truth.splits)

lemma shows_gallery_open_new:
  assumes "laid_out s"
    and "fitz_open file_path = None \<Longrightarrow> shows_gallery s"
  shows "shows_gallery (open_new h fitz_open file_path s)"
proof (cases "fitz_open file_path")
  case None
  have "shows_gallery (s\<lparr>messages := messages s @ [Critical]\<rparr>)"
    using assms(2) [OF None] by (rule shows_gallery_same) simp_all
  then show ?thesis
    using None by (simp add: open_new_failure)
next
  case (Some ps)
  let ?s4 = "state_of (spin_setValue h 1
                (state_of (spin_setMaximum h (int (length ps))
                   (s\<lparr>pdf_document := Some \<lparr>doc_pages = ps, is_closed = False\<rparr>,
                      current_page := 0\<rparr>))))"
  have "laid_out ?s4"
    using assms(1) by (simp add: laid_out_def spin_setValue_frame spin_setMaximum_frame)
  then show ?thesis
    by (simp add: open_new_success [where fitz_open = fitz_open and file_path = file_path, OF Some]
        shows_gallery_render_all_pages)
qed

lemma shows_gallery_open_file:
  assumes "shows_gallery s"
  shows "shows_gallery (open_file h fitz_open file_path s)"
proof (cases "file_path = []")
  case True
  then show ?thesis using assms by (simp add: open_file_def)
next
  case False
  have lay: "laid_out s"
    using assms by (simp add: shows_gallery_def)
  show ?thesis
  proof (cases "truthy (pdf_document s)")
    case (Raises e)
    have "shows_gallery (s\<lparr>messages := messages s @ [Critical]\<rparr>)"
      using assms by (rule shows_gallery_same) simp_all
    then show ?thesis
      using False Raises by (simp add: open_file_def open_failed_def)
  next
    case Falsy
    have "shows_gallery (open_new h fitz_open file_path s)"
      using lay assms by (rule shows_gallery_open_new)
    then show ?thesis
      using False Falsy by (simp add: open_file_def)
  next
    case (Truthy old)
    let ?s1 = "s\<lparr>pdf_document := Some (close old)\<rparr>"
    have "laid_out ?s1"
      using lay by (simp add: laid_out_def)
    moreover have "shows_gallery ?s1"
      using assms by (rule shows_gallery_same) (simp_all add: close_def)
    ultimately have "shows_gallery (open_new h fitz_open file_path ?s1)"
      by (rule shows_gallery_open_new)
    then show ?thesis
      using False Truthy by (simp add: open_file_def)
  qed
qed

lemma reachable_shows_gallery:
  "reachable fitz_open s \<Longrightarrow> laid_out s \<and> in_sync s"
proof -
  assume "reachable fitz_open s"
  then have "shows_gallery s"
  proof (induction rule: reachable.induct)
    case start
    show ?case
      by (simp add: shows_gallery_def laid_out_init in_sync_iff) (simp add: init_viewer_def)
  qed (simp_all add: shows_gallery_open_file shows_gallery_next shows_gallery_prev
      shows_gallery_spin shows_gallery_zoom shows_gallery_toggle shows_gallery_key
      shows_gallery_wheel)
  then show ?thesis by (simp add: shows_gallery_def)
qed

text \<open>
  When \<open>fitz.open\<close> never gives a document without pages, the current page is a page
  of the document in every state the viewer reaches: the spin box keeps the page
  numbers it hands to \<open>jump_to_page\<close> between 1 and the page count.
\<close>

lemmas nav_defs =
  page_in_range_def page_count_def scroll_to_page_def spin_bound_def Let_def truthy_Truthy_iff

lemma page_in_range_render_all_pages:
  "page_in_range (state_of (render_all_pages s)) = page_in_range s"
  by (simp add: page_in_range_def render_all_pages_frame split: option.splits)

lemma page_in_range_next: "page_in_range s \<Longrightarrow> page_in_range (state_of (next_page h s))"
  by (auto simp add: nav_defs next_page_def split: option.splits truth.splits)

lemma page_in_range_prev: "page_in_range s \<Longrightarrow> page_in_range (state_of (prev_page h s))"
  by (auto simp add: nav_defs prev_page_def split: option.splits truth.splits)

lemma page_in_range_spin:
  "page_in_range s \<Longrightarrow> page_in_range (state_of (spin_setValue h n s))"
  by (auto simp add: nav_defs spin_setValue_def jump_to_page_def
      split: option.splits truth.splits)

lemma page_in_range_settings:
  assumes "page_in_range s"
  shows "page_in_range (state_of (zoom_in s))" and "page_in_range (state_of (zoom_out s))"
    and "page_in_range (state_of (toggle_color_invert s))"
  using assms
  by (simp_all add: zoom_in_def zoom_out_def toggle_color_invert_def render_page_def
      page_in_range_render_all_pages)
    (simp_all add: page_in_range_def split: option.splits)

lemma page_in_range_key:
  "page_in_range s \<Longrightarrow> page_in_range (state_of (keyPressEvent h k s))"
proof (cases "truthy (pdf_document s)")
  case (Truthy d)
  assume inv: "page_in_range s"
  from Truthy have doc: "pdf_document s = Some d"
    by (simp add: truthy_Truthy_iff)
  have home: "page_in_range (state_of (render_page (s\<lparr>current_page := 0\<rparr>)))"
    using inv doc
    by (simp add: render_page_def page_in_range_render_all_pages)
      (auto simp add: page_in_range_def page_count_def)
  have last: "page_in_range
                (state_of (render_page (s\<lparr>current_page := int (length (doc_pages d)) - 1\<rparr>)))"
    using inv doc
    by (simp add: render_page_def page_in_range_render_all_pages)
      (auto simp add: page_in_range_def page_count_def)
  show ?thesis
    using inv Truthy home last
    by (simp add: keyPressEvent_def page_in_range_next page_in_range_prev
        page_in_range_settings)
qed (simp_all add: keyPressEvent_def)

lemma page_in_range_wheel:
  "page_in_range s \<Longrightarrow> page_in_range (state_of (wheelEvent ctrl delta s))"
  by (simp add: wheelEvent_def page_in_range_settings split: truth.splits)

lemma page_in_range_open_new:
  assumes "spin_minimum s = 1" and "1 \<le> spin_value s" and "spin_value s \<le> spin_maximum s"
    and "fitz_open file_path = None \<Longrightarrow> page_in_range s"
    and "\<forall>path ps. fitz_open path = Some ps \<longrightarrow> ps \<noteq> []"
  shows "page_in_range (open_new h fitz_open file_path s)"
proof (cases "fitz_open file_path")
  case None
  then show ?thesis
    using assms(4) by (simp add: open_new_failure page_in_range_def split: option.splits)
next
  case (Some ps)
  let ?d = "\<lparr>doc_pages = ps, is_closed = False\<rparr>"
  define s2 where "s2 = s\<lparr>pdf_document := Some ?d, current_page := 0\<rparr>"
  define s3 where "s3 = state_of (spin_setMaximum h (int (length ps)) s2)"
  have ne: "ps \<noteq> []"
    using assms(5) Some by blast
  then have pages: "1 \<le> int (length ps)"
    by (cases ps) auto
  have s2: "spin_minimum s2 = 1 \<and> 1 \<le> spin_value s2 \<and> spin_value s2 \<le> spin_maximum s2 \<and>
            pdf_document s2 = Some ?d \<and> current_page s2 = 0"
    using assms(1,2,3) by (simp add: s2_def)
  have s3: "page_in_range s3"
    using s2 pages ne
    by (auto simp add: s3_def spin_setMaximum_def jump_to_page_def nav_defs)
  have "page_in_range (state_of (spin_setValue h 1 s3))"
    using s3 by (rule page_in_range_spin)
  then show ?thesis
    by (simp add: open_new_success [where fitz_open = fitz_open and file_path = file_path, OF Some]
        page_in_range_render_all_pages s3_def s2_def)
qed

lemma page_in_range_open_file:
  assumes "page_in_range s" and "\<forall>path ps. fitz_open path = Some ps \<longrightarrow> ps \<noteq> []"
  shows "page_in_range (open_file h fitz_open file_path s)"
proof (cases "file_path = []")
  case True
  then show ?thesis using assms(1) by (simp add: open_file_def)
next
  case False
  have spin: "spin_minimum s = 1" "1 \<le> spin_value s" "spin_value s \<le> spin_maximum s"
    using assms(1) by (simp_all add: page_in_range_def)
  show ?thesis
  proof (cases "truthy (pdf_document s)")
    case (Raises e)
    then show ?thesis
      using False assms(1)
      by (simp add: open_file_def open_failed_def page_in_range_def split: option.splits)
  next
    case Falsy
    then show ?thesis
      using False spin assms by (simp add: open_file_def page_in_range_open_new)
  next
    case (Truthy old)
    let ?s1 = "s\<lparr>pdf_document := Some (close old)\<rparr>"
    from Truthy have "pdf_document s = Some old"
      by (simp add: truthy_Truthy_iff)
    then have "page_in_range ?s1"
      using assms(1) by (simp add: page_in_range_def page_count_def close_def)
    then have "page_in_range (open_new h fitz_open file_path ?s1)"
      using spin assms(2) by (intro page_in_range_open_new) simp_all
    then show ?thesis
      using False Truthy by (simp add: open_file_def)
  qed
qed

lemma reachable_page_in_range:
  assumes "reachable fitz_open s"
    and "\<forall>path ps. fitz_open path = Some ps \<longrightarrow> ps \<noteq> []"
  shows "page_in_range s"
  using assms
proof (induction rule: reachable.induct)
  case start
  show ?case by (simp add: page_in_range_def init_viewer_def)
qed (simp_all add: page_in_range_open_file page_in_range_next page_in_range_prev
    page_in_range_spin page_in_range_settings page_in_range_key page_in_range_wheel)

lemma reachable_current_page:
  assumes "reachable fitz_open s"
    and "\<forall>path ps. fitz_open path = Some ps \<longrightarrow> ps \<noteq> []"
    and "pdf_document s = Some d"
  shows "0 \<le> current_page s \<and> current_page s < page_count d"
  using reachable_page_in_range [OF assms(1,2)] assms(3)
  by (simp add: page_in_range_def)

section \<open>The example states, evaluated\<close>

lemmas open_defs =
  open_file_def open_new_def open_failed_def init_viewer_def example_open_def Let_def
  spin_setMaximum_def spin_setValue_def spin_bound_def jump_to_page_def scroll_to_page_def
  render_all_pages_def

lemma example_docs:
  "doc_pages example_doc = [example_page 2 10, example_page 3 20, example_page 4 30]"
  "doc_pages damaged_doc = [example_page 2 10, broken_page, example_page 4 30]"
  "doc_pages torn_doc = [example_page 2 10, example_page 3 20, broken_page]"
  "is_closed example_doc = False" "is_closed damaged_doc = False" "is_closed torn_doc = False"
  "page_count example_doc = 3" "page_count damaged_doc = 3" "page_count torn_doc = 3"
  by (simp_all add: example_doc_def damaged_doc_def torn_doc_def page_count_def)

lemma example_doc_eq:
  "\<lparr>doc_pages = [example_page 2 10, example_page 3 20, example_page 4 30],
    is_closed = False\<rparr> = example_doc"
  "\<lparr>doc_pages = [example_page 2 10, broken_page, example_page 4 30],
    is_closed = False\<rparr> = damaged_doc"
  "\<lparr>doc_pages = [example_page 2 10, example_page 3 20, broken_page],
    is_closed = False\<rparr> = torn_doc"
  by (simp_all add: example_doc_def damaged_doc_def torn_doc_def)

lemma example_page_1:
  "example_page 2 10 1 = Some (rows2 10)"
  "example_page 3 20 1 = Some (rows3 20)"
  "example_page 4 30 1 = Some (rows4 30)"
  "broken_page 1 = None"
  by (simp_all add: example_page_def broken_page_def numeral_eq_Suc)

lemma opened_eq:
  "opened =
     \<lparr>pdf_document = Some example_doc, current_page = 0, zoom_level = 1, invert_colors = True,
      page_images = [rows2 245, rows3 235, rows4 225],
      pages_layout =
        [LabelItem (rows2 245), LabelItem (rows3 235), LabelItem (rows4 225), StretchItem],
      scroll_value = 0, spin_minimum = 1, spin_maximum = 3, spin_value = 1,
      messages = [], rasterized = 3\<rparr>"
  by (simp add: opened_def open_defs example_docs example_doc_eq example_page_1
      invertPixels_def truthy_def)

lemma opened_damaged_eq:
  "opened_damaged =
     \<lparr>pdf_document = Some damaged_doc, current_page = 0, zoom_level = 1, invert_colors = True,
      page_images = [rows2 245],
      pages_layout = [LabelItem (rows2 245)],
      scroll_value = 0, spin_minimum = 1, spin_maximum = 3, spin_value = 1,
      messages = [Warning], rasterized = 2\<rparr>"
  by (simp add: opened_damaged_def open_defs example_docs example_doc_eq example_page_1
      invertPixels_def truthy_def)

lemma opened_torn_eq:
  "opened_torn =
     \<lparr>pdf_document = Some torn_doc, current_page = 0, zoom_level = 1, invert_colors = True,
      page_images = [rows2 245, rows3 235],
      pages_layout = [LabelItem (rows2 245), LabelItem (rows3 235)],
      scroll_value = 0, spin_minimum = 1, spin_maximum = 3, spin_value = 1,
      messages = [Warning], rasterized = 3\<rparr>"
  by (simp add: opened_torn_def open_defs example_docs example_doc_eq example_page_1
      invertPixels_def truthy_def)

lemma upt_3: "[0..<1] = [0]" "[0..<2] = [0, 1]" "[0..<3] = [0, 1, 2]"
  by (simp_all add: upt_rec)

lemma next_opened_eq:
  "next_page example_heights opened =
     Done (opened\<lparr>current_page := 1, scroll_value := 12, spin_value := 2\<rparr>)"
  by (simp add: opened_eq next_page_def scroll_to_page_def example_docs spacing_def
      example_heights_def spin_bound_def upt_3)

lemma on_last_page_eq:
  "on_last_page = opened\<lparr>current_page := 2, scroll_value := 25, spin_value := 3\<rparr>"
  by (simp add: on_last_page_def next_opened_eq)
    (simp add: opened_eq next_page_def scroll_to_page_def example_docs spacing_def
      example_heights_def spin_bound_def upt_3)

lemma after_failed_open_eq:
  "after_failed_open =
     on_last_page\<lparr>pdf_document := Some (close example_doc), messages := [Critical]\<rparr>"
  by (simp add: after_failed_open_def on_last_page_eq)
    (simp add: opened_eq open_file_def open_new_def open_failed_def example_open_def
      example_docs)

lemma after_empty_eq:
  "after_empty = opened\<lparr>spin_minimum := 0\<rparr>"
  by (simp add: after_empty_def opened_eq)
    (simp add: open_defs example_docs example_doc_eq example_page_1 invertPixels_def
      truthy_def)

lemma example_heights_at_size_hint: "at_size_hint example_heights"
  by (simp add: at_size_hint_def example_heights_def nth_append)

section \<open>Rendering with and without inversion\<close>

text \<open>
  C1. For an open document (one with a page) and any zoom factor, so for every one in
  [0.2, 5.0], the gallery rendered with \<open>invert_colors\<close> off holds the bitmaps \<open>get_pixmap\<close>
  gives for the pages, one for every page when all pages can be rasterized, and the
  gallery rendered with \<open>invert_colors\<close> on has the same length; page by page the two
  bitmaps have the same width, height, stride and number of bytes, and every byte of
  the inverted one is 255 minus the byte of the other.
\<close>

theorem render_invert_complement:
  assumes "pdf_document s = Some d" and "\<not> is_closed d" and "doc_pages d \<noteq> []"
    and "N = page_images (state_of (render_all_pages (s\<lparr>invert_colors := False\<rparr>)))"
    and "I = page_images (state_of (render_all_pages (s\<lparr>invert_colors := True\<rparr>)))"
  shows "N = raster_prefix (zoom_level s) (doc_pages d) \<and>
         (loop_ok (zoom_level s) (doc_pages d) \<longrightarrow> length N = length (doc_pages d)) \<and>
         length I = length N \<and>
         (\<forall>k<length N.
            width (I ! k) = width (N ! k) \<and> height (I ! k) = height (N ! k) \<and>
            stride (I ! k) = stride (N ! k) \<and>
            length (samples (I ! k)) = length (samples (N ! k)) \<and>
            (\<forall>i<length (samples (N ! k)). samples (I ! k) ! i = 255 - samples (N ! k) ! i))"
proof -
  have N: "N = raster_prefix (zoom_level s) (doc_pages d)"
    using assms(1,2,3,4) render_all_pages_images [of "s\<lparr>invert_colors := False\<rparr>" d]
    by simp
  have I: "I = map invertPixels N"
    using assms(1,2,3,5) render_all_pages_images [of "s\<lparr>invert_colors := True\<rparr>" d] N
    by simp
  show ?thesis
    using N I by (simp add: invertPixels_fields raster_prefix_all)
qed

theorem render_invert_complement_witness:
  "map samples (page_images (state_of (render_all_pages (opened\<lparr>invert_colors := False\<rparr>)))) =
     map samples [rows2 10, rows3 20, rows4 30] \<and>
   map samples (page_images (state_of (render_all_pages (opened\<lparr>invert_colors := True\<rparr>)))) =
     map samples [rows2 245, rows3 235, rows4 225] \<and>
   samples (page_images (state_of (render_all_pages (opened\<lparr>invert_colors := True\<rparr>))) ! 1) ! 4 =
     255 -
     samples (page_images (state_of (render_all_pages (opened\<lparr>invert_colors := False\<rparr>))) ! 1) ! 4"
proof -
  let ?N = "page_images (state_of (render_all_pages (opened\<lparr>invert_colors := False\<rparr>)))"
  let ?I = "page_images (state_of (render_all_pages (opened\<lparr>invert_colors := True\<rparr>)))"
  have doc: "pdf_document opened = Some example_doc"
    by (simp add: opened_eq)
  have z: "zoom_level opened = 1"
    by (simp add: opened_eq)
  have raster: "raster_prefix 1 (doc_pages example_doc) = [rows2 10, rows3 20, rows4 30]"
    by (simp add: example_docs example_page_1)
  have live: "\<not> is_closed example_doc" and pages: "doc_pages example_doc \<noteq> []"
    by (simp_all add: example_docs)
  note t = render_invert_complement [OF doc live pages refl refl, unfolded z]
  from t have a: "?N = raster_prefix 1 (doc_pages example_doc)"
    by blast
  from t have "\<forall>k<length ?N.
      length (samples (?I ! k)) = length (samples (?N ! k)) \<and>
      (\<forall>i<length (samples (?N ! k)). samples (?I ! k) ! i = 255 - samples (?N ! k) ! i)"
    by blast
  then have b: "samples (?I ! 1) ! 4 = 255 - samples (?N ! 1) ! 4"
    by (simp add: a raster)
  have c: "?I = map invertPixels (raster_prefix 1 (doc_pages example_doc))"
    using render_all_pages_images [of "opened\<lparr>invert_colors := True\<rparr>" example_doc] doc z
      live pages
    by simp
  show ?thesis
    using b by (simp add: a c raster invertPixels_def)
qed

section \<open>The first document\<close>

text \<open>
  C10. The viewer starts with \<open>invert_colors\<close> on and without a document. When a file
  with at least one page is opened while the inversion is on, as it is until the first
  toggle, and the window holds no document or one whose handle is not closed, the file
  becomes the document and its gallery is the inversion of what \<open>get_pixmap\<close> gives for
  its pages.
\<close>

theorem first_document_inverted:
  "invert_colors init_viewer \<and> pdf_document init_viewer = None \<and>
   ((\<forall>d. pdf_document s = Some d \<longrightarrow> \<not> is_closed d) \<longrightarrow> invert_colors s \<longrightarrow>
    file_path \<noteq> [] \<longrightarrow> fitz_open file_path = Some ps \<longrightarrow> ps \<noteq> [] \<longrightarrow>
      pdf_document (open_file h fitz_open file_path s) =
        Some \<lparr>doc_pages = ps, is_closed = False\<rparr> \<and>
      page_images (open_file h fitz_open file_path s) =
        map invertPixels (raster_prefix (zoom_level s) ps))"
proof -
  have "pdf_document (open_file h fitz_open file_path s) =
          Some \<lparr>doc_pages = ps, is_closed = False\<rparr> \<and>
        page_images (open_file h fitz_open file_path s) =
          map invertPixels (raster_prefix (zoom_level s) ps)"
    if live: "\<forall>d. pdf_document s = Some d \<longrightarrow> \<not> is_closed d" and inv: "invert_colors s"
      and path: "file_path \<noteq> []" and opens: "fitz_open file_path = Some ps" and ne: "ps \<noteq> []"
  proof (cases "truthy (pdf_document s)")
    case (Raises e)
    with live show ?thesis
      by (auto simp add: truthy_Raises_iff)
  next
    case Falsy
    then have "open_file h fitz_open file_path s = open_new h fitz_open file_path s"
      using path by (simp add: open_file_def)
    then show ?thesis
      using inv
      by (simp add: open_new_frame [where fitz_open = fitz_open and file_path = file_path, OF opens]
          open_new_images [where fitz_open = fitz_open and file_path = file_path, OF opens ne])
  next
    case (Truthy old)
    then have "open_file h fitz_open file_path s =
                 open_new h fitz_open file_path (s\<lparr>pdf_document := Some (close old)\<rparr>)"
      using path by (simp add: open_file_def)
    then show ?thesis
      using inv
      by (simp add: open_new_frame [where fitz_open = fitz_open and file_path = file_path, OF opens]
          open_new_images [where fitz_open = fitz_open and file_path = file_path, OF opens ne])
  qed
  then show ?thesis
    by (simp add: init_viewer_def)
qed

theorem first_document_inverted_witness:
  "invert_colors init_viewer \<and> pdf_document init_viewer = None \<and>
   example_open ''a.pdf'' = Some (doc_pages example_doc) \<and>
   pdf_document (open_file example_heights example_open ''a.pdf'' init_viewer) =
     Some example_doc \<and>
   page_images (open_file example_heights example_open ''a.pdf'' init_viewer) =
     map invertPixels (raster_prefix 1 (doc_pages example_doc)) \<and>
   map samples (page_images (open_file example_heights example_open ''a.pdf'' init_viewer)) =
     map samples [rows2 245, rows3 235, rows4 225]"
proof -
  have inv: "invert_colors init_viewer" and z: "zoom_level init_viewer = 1"
    and live: "\<forall>d. pdf_document init_viewer = Some d \<longrightarrow> \<not> is_closed d"
    by (simp_all add: init_viewer_def)
  have path: "''a.pdf'' \<noteq> []"
    by simp
  have ex: "example_open ''a.pdf'' = Some (doc_pages example_doc)"
    by (simp add: example_open_def)
  have pages: "doc_pages example_doc \<noteq> []"
    by (simp add: example_docs)
  have fresh: "\<lparr>doc_pages = doc_pages example_doc, is_closed = False\<rparr> = example_doc"
    by (simp add: example_doc_def)
  have vals: "map samples
                (page_images (open_file example_heights example_open ''a.pdf'' init_viewer)) =
                map samples [rows2 245, rows3 235, rows4 225]"
    using opened_eq by (simp add: opened_def)
  from first_document_inverted
    [of init_viewer "''a.pdf''" example_open "doc_pages example_doc" example_heights]
    inv z live path ex pages vals fresh
  show ?thesis
    by simp
qed

section \<open>Toggling the inversion twice\<close>

text \<open>
  C7. For an open document whose gallery is the one its settings give (as it is in
  every state the viewer reaches), toggling the inversion twice gives back the same
  bitmaps, with the zoom factor and the inversion as before, and neither toggle raises.
\<close>

theorem toggle_twice_restores:
  assumes "pdf_document s = Some d" and "\<not> is_closed d" and "in_sync s"
  shows "page_images (state_of (toggle_color_invert (state_of (toggle_color_invert s)))) =
           page_images s \<and>
         invert_colors (state_of (toggle_color_invert (state_of (toggle_color_invert s)))) =
           invert_colors s \<and>
         zoom_level (state_of (toggle_color_invert (state_of (toggle_color_invert s)))) =
           zoom_level s \<and>
         raised (toggle_color_invert s) = None \<and>
         raised (toggle_color_invert (state_of (toggle_color_invert s))) = None"
proof -
  let ?s1 = "state_of (toggle_color_invert s)"
  have doc: "pdf_document ?s1 = Some d"
    using assms(1) by (simp add: toggle_color_invert_frame)
  have returns: "raised (toggle_color_invert s) = None \<and> raised (toggle_color_invert ?s1) = None"
    using assms(1,2) doc
    by (cases "doc_pages d = []") (simp_all add: settings_raised render_all_pages_raised)
  have "page_images (state_of (toggle_color_invert ?s1)) = page_images s"
  proof (cases "doc_pages d = []")
    case True
    then have "state_of (render_all_pages s') = s'" if "pdf_document s' = Some d" for s'
      using that assms(2) by (simp add: render_all_pages_unchanged)
    then show ?thesis
      using assms(1) by (simp add: toggle_color_invert_def render_page_def)
  next
    case False
    have "page_images (state_of (toggle_color_invert ?s1)) =
            map (shown (invert_colors s)) (raster_prefix (zoom_level s) (doc_pages d))"
      by (simp add: toggle_color_invert_images [OF doc assms(2) False]
          toggle_color_invert_frame)
    also have "\<dots> = page_images (state_of (render_all_pages s))"
      by (simp add: render_all_pages_images [OF assms(1,2) False])
    also have "\<dots> = page_images s"
      using assms(3) by (simp add: in_sync_def)
    finally show ?thesis .
  qed
  with returns show ?thesis
    by (simp add: toggle_color_invert_frame)
qed

theorem toggle_twice_restores_witness:
  "page_images (state_of (toggle_color_invert (state_of (toggle_color_invert opened)))) =
     page_images opened \<and>
   page_images (state_of (toggle_color_invert opened)) \<noteq> page_images opened"
proof -
  have doc: "pdf_document opened = Some example_doc"
    by (simp add: opened_eq)
  have live: "\<not> is_closed example_doc" and pages: "doc_pages example_doc \<noteq> []"
    by (simp_all add: example_docs)
  have "reachable example_open opened"
    unfolding opened_def by (intro reachable.intros)
  then have sync: "in_sync opened"
    by (simp add: reachable_shows_gallery)
  have "page_images (state_of (toggle_color_invert opened)) =
          map (shown False) (raster_prefix 1 (doc_pages example_doc))"
    using toggle_color_invert_images [OF doc live pages] by (simp add: opened_eq)
  then have diff: "page_images (state_of (toggle_color_invert opened)) \<noteq> page_images opened"
    by (simp add: example_docs example_page_1 opened_eq)
  from toggle_twice_restores [OF doc live sync] diff show ?thesis
    by simp
qed

section \<open>A page that cannot be rasterized\<close>

text \<open>
  C4, as the code has it. For an open document, when page \<open>k\<close> is the first page whose
  rasterization fails, the rebuild stops there without raising: the gallery holds the
  bitmaps of the \<open>k\<close> pages before it, the layout holds their labels and nothing else
  (no placeholder, no stretch), the pages after \<open>k\<close> are not rasterized, and one
  warning is shown.
\<close>

theorem render_stops_at_failing_page:
  assumes "pdf_document s = Some d" and "\<not> is_closed d"
    and "k < length (doc_pages d)"
    and "(doc_pages d ! k) (zoom_level s) = None"
    and "\<forall>j<k. (doc_pages d ! j) (zoom_level s) \<noteq> None"
  shows "raised (render_all_pages s) = None \<and>
         page_images (state_of (render_all_pages s)) =
           map (\<lambda>p. shown (invert_colors s) (the (p (zoom_level s)))) (take k (doc_pages d)) \<and>
         pages_layout (state_of (render_all_pages s)) =
           map LabelItem (page_images (state_of (render_all_pages s))) \<and>
         messages (state_of (render_all_pages s)) = messages s @ [Warning] \<and>
         rasterized (state_of (render_all_pages s)) = rasterized s + k + 1"
proof -
  note pre = raster_prefix_first_failure [OF assms(3,4,5)]
  have len: "length (raster_prefix (zoom_level s) (doc_pages d)) = k"
    using pre assms(3) by simp
  have pages: "doc_pages d \<noteq> []"
    using assms(3) by auto
  show ?thesis
    using pre len assms(1,2) pages
    by (simp add: render_all_pages_images [OF assms(1,2) pages]
        render_all_pages_layout [OF assms(1,2) pages]
        render_all_pages_messages [OF assms(1,2) pages]
        render_all_pages_rasterized [OF assms(1,2) pages] render_all_pages_raised comp_def)
qed

theorem render_stops_at_failing_page_witness:
  "page_images (state_of (render_all_pages opened_damaged)) = [rows2 245] \<and>
   pages_layout (state_of (render_all_pages opened_damaged)) = [LabelItem (rows2 245)] \<and>
   messages (state_of (render_all_pages opened_damaged)) = [Warning, Warning] \<and>
   rasterized (state_of (render_all_pages opened_damaged)) = 4"
proof -
  have doc: "pdf_document opened_damaged = Some damaged_doc"
    by (simp add: opened_damaged_eq)
  have live: "\<not> is_closed damaged_doc"
    by (simp add: example_docs)
  have z: "zoom_level opened_damaged = 1"
    by (simp add: opened_damaged_eq)
  have k: "1 < length (doc_pages damaged_doc)"
    by (simp add: example_docs)
  have bad: "(doc_pages damaged_doc ! 1) (zoom_level opened_damaged) = None"
    by (simp add: example_docs example_page_1 z)
  have good: "\<forall>j<1. (doc_pages damaged_doc ! j) (zoom_level opened_damaged) \<noteq> None"
    by (simp add: example_docs example_page_1 z)
  have fields: "invert_colors opened_damaged" "messages opened_damaged = [Warning]"
    "rasterized opened_damaged = 2"
    by (simp_all add: opened_damaged_eq)
  from render_stops_at_failing_page [OF doc live k bad good] show ?thesis
    by (simp add: z fields example_docs example_page_1 invertPixels_def)
qed

text \<open>
  C4 as stated fails: in the open document whose second page cannot be rasterized, the
  third page can, but the gallery and the layout end after the first page.
\<close>

theorem render_failure_counterexample:
  "pdf_document opened_damaged = Some damaged_doc \<and> \<not> is_closed damaged_doc \<and>
   length (doc_pages damaged_doc) = 3 \<and>
   (doc_pages damaged_doc ! 1) (zoom_level opened_damaged) = None \<and>
   (doc_pages damaged_doc ! 2) (zoom_level opened_damaged) \<noteq> None \<and>
   length (page_images opened_damaged) = 1 \<and>
   length (pages_layout opened_damaged) = 1 \<and>
   rasterized opened_damaged = 2"
  by (simp add: opened_damaged_eq example_docs example_page_1)

section \<open>The scroll offset of a page\<close>

text \<open>
  C9, as the code has it. \<open>scroll_to_page\<close> adds up the heights of the labels, not of
  the bitmaps. When the last rebuild ran to its end, so that the layout ends with the
  stretch, and Qt gives every label of such a layout the height of its pixmap, the
  scroll position set for a page \<open>p\<close> of the gallery is the sum, over the pages before
  \<open>p\<close>, of the height of the page's bitmap plus the spacing. For the three-page document,
  two page turns from the start end on page 2 at the heights of pages 0 and 1 plus two
  spacings.
\<close>

theorem scroll_offset_is_sum:
  assumes "completed s" and "at_size_hint h"
    and "0 \<le> p" and "p < int (length (page_images s))"
  shows "scroll_value (scroll_to_page h p s) =
           (\<Sum>i<nat p. int (height (page_images s ! i)) + spacing)"
proof -
  have "h (pages_layout s) i = height (page_images s ! i)" if "i < nat p" for i
  proof -
    from that assms(4) have "i < length (page_images s)"
      by simp
    with assms(1,2) show ?thesis
      by (simp add: completed_def at_size_hint_def)
  qed
  then have "(\<Sum>i<nat p. int (h (pages_layout s) i) + spacing) =
             (\<Sum>i<nat p. int (height (page_images s ! i)) + spacing)"
    by simp
  then show ?thesis
    using scroll_value_scroll_to_page [OF completed_laid_out [OF assms(1)] assms(3,4), of h]
    by simp
qed

theorem scroll_offset_is_sum_witness:
  "completed opened \<and>
   current_page
     (state_of (next_page example_heights (state_of (next_page example_heights opened)))) = 2 \<and>
   scroll_value
     (state_of (next_page example_heights (state_of (next_page example_heights opened)))) =
     2 + 3 + 2 * spacing \<and>
   scroll_value (scroll_to_page example_heights 2 opened) =
     int (height (page_images opened ! 0)) + int (height (page_images opened ! 1)) + 2 * spacing"
proof -
  have built: "completed opened"
    by (simp add: completed_def opened_eq)
  have lo: "(0::int) \<le> 2" and hi: "2 < int (length (page_images opened))"
    by (simp_all add: opened_eq)
  have two: "{..<2::nat} = {0, 1}"
    by auto
  from scroll_offset_is_sum [OF built example_heights_at_size_hint lo hi]
  have "scroll_value (scroll_to_page example_heights 2 opened) =
          int (height (page_images opened ! 0)) + int (height (page_images opened ! 1)) +
          2 * spacing"
    by (simp add: two)
  moreover have
    "current_page
       (state_of (next_page example_heights (state_of (next_page example_heights opened)))) = 2"
    using on_last_page_eq by (simp add: on_last_page_def)
  moreover have
    "scroll_value
       (state_of (next_page example_heights (state_of (next_page example_heights opened)))) =
       2 + 3 + 2 * spacing"
    using on_last_page_eq by (simp add: on_last_page_def spacing_def)
  ultimately show ?thesis
    using built by blast
qed

text \<open>
  C9 as stated fails after a rebuild that was cut short. In the document whose third
  page cannot be rasterized the layout holds two labels and no stretch, and the labels
  share the viewport: the first is 358 pixels high for a bitmap of 2 rows. The scroll
  position set for page 1 is 368; the height of the bitmap of page 0 plus the spacing
  is 12.
\<close>

theorem scroll_offset_counterexample:
  "pdf_document opened_torn = Some torn_doc \<and> \<not> is_closed torn_doc \<and>
   page_images opened_torn = [rows2 245, rows3 235] \<and>
   pages_layout opened_torn = [LabelItem (rows2 245), LabelItem (rows3 235)] \<and>
   example_heights (pages_layout opened_torn) 0 = 358 \<and>
   scroll_value (scroll_to_page example_heights 1 opened_torn) = 368 \<and>
   scroll_value (state_of (next_page example_heights opened_torn)) = 368 \<and>
   current_page (state_of (next_page example_heights opened_torn)) = 1 \<and>
   int (height (page_images opened_torn ! 0)) + spacing = 12"
proof -
  have half: "(716::nat) div Suc (Suc 0) = 358"
    by (simp add: numeral_2_eq_2 [symmetric])
  show ?thesis
    by (simp add: opened_torn_eq next_page_def scroll_to_page_def example_docs spacing_def
        example_heights_def spin_bound_def upt_3 half)
qed

section \<open>Home and End\<close>

text \<open>
  C2 at the Home key. On the last page of the three-page document, scrolled to 25,
  \<open>keyPressEvent\<close> sets \<open>current_page\<close> to 0 and calls \<open>render_page\<close>: the three
  pages are rasterized again and the scroll position stays at 25. The spin box's
  \<open>jump_to_page 1\<close>, from the same state, rasterizes nothing and scrolls to 0.
\<close>

theorem home_key_rebuilds_gallery:
  "pdf_document on_last_page = Some example_doc \<and>
   current_page on_last_page = 2 \<and> scroll_value on_last_page = 25 \<and>
   rasterized on_last_page = 3 \<and>
   keyPressEvent example_heights Key_Home on_last_page =
     render_page (on_last_page\<lparr>current_page := 0\<rparr>) \<and>
   raised (keyPressEvent example_heights Key_Home on_last_page) = None \<and>
   current_page (state_of (keyPressEvent example_heights Key_Home on_last_page)) = 0 \<and>
   scroll_value (state_of (keyPressEvent example_heights Key_Home on_last_page)) = 25 \<and>
   rasterized (state_of (keyPressEvent example_heights Key_Home on_last_page)) = 6 \<and>
   page_images (state_of (keyPressEvent example_heights Key_Home on_last_page)) =
     page_images on_last_page \<and>
   current_page (state_of (jump_to_page example_heights 1 on_last_page)) = 0 \<and>
   scroll_value (state_of (jump_to_page example_heights 1 on_last_page)) = 0 \<and>
   rasterized (state_of (jump_to_page example_heights 1 on_last_page)) = 3"
proof -
  let ?home = "keyPressEvent example_heights Key_Home on_last_page"
  let ?s0 = "on_last_page\<lparr>current_page := 0\<rparr>"
  have doc: "pdf_document on_last_page = Some example_doc"
    and vals: "current_page on_last_page = 2" "scroll_value on_last_page = 25"
      "rasterized on_last_page = 3" "zoom_level on_last_page = 1"
      "length (page_images on_last_page) = 3"
    by (simp_all add: on_last_page_eq) (simp_all add: opened_eq)
  have live: "\<not> is_closed example_doc" and pages: "doc_pages example_doc \<noteq> []"
    by (simp_all add: example_docs)
  have key: "?home = render_page ?s0"
    by (simp add: keyPressEvent_def doc example_docs)
  have returns: "raised ?home = None"
    by (simp add: key render_page_def render_all_pages_raised doc example_docs)
  have home: "current_page (state_of ?home) = 0" "scroll_value (state_of ?home) = 25"
    by (simp_all add: key render_page_frame vals)
  have ras: "rasterized (state_of ?home) = 6"
    using render_all_pages_rasterized [of ?s0 example_doc]
    by (simp add: key render_page_def doc vals example_docs example_page_1)
  have same: "page_images (state_of ?home) = page_images on_last_page"
    using render_all_pages_images [of ?s0 example_doc]
    by (simp add: key render_page_def doc example_docs)
      (simp add: on_last_page_eq opened_eq example_page_1 invertPixels_def)
  have jump: "current_page (state_of (jump_to_page example_heights 1 on_last_page)) = 0"
    "scroll_value (state_of (jump_to_page example_heights 1 on_last_page)) = 0"
    "rasterized (state_of (jump_to_page example_heights 1 on_last_page)) = 3"
    by (simp_all add: jump_to_page_def doc example_docs scroll_to_page_def vals)
  show ?thesis
    using doc vals key returns home ras same jump by simp
qed

section \<open>Page turns at the ends of the document\<close>

text \<open>
  C8. For an open document whose current page is within the document, \<open>next_page\<close> on
  the last page and \<open>prev_page\<close> on the first page leave \<open>current_page\<close> as it is;
  anywhere else \<open>next_page\<close> adds one to it and \<open>prev_page\<close> takes one from it. Neither
  raises.
\<close>

theorem next_prev_bounds:
  assumes "pdf_document s = Some d" and "\<not> is_closed d"
    and "0 \<le> current_page s" and "current_page s < page_count d"
  shows "(current_page s = page_count d - 1 \<longrightarrow>
            current_page (state_of (next_page h s)) = current_page s) \<and>
         (current_page s = 0 \<longrightarrow> current_page (state_of (prev_page h s)) = current_page s) \<and>
         (current_page s \<noteq> page_count d - 1 \<longrightarrow>
            current_page (state_of (next_page h s)) = current_page s + 1) \<and>
         (current_page s \<noteq> 0 \<longrightarrow>
            current_page (state_of (prev_page h s)) = current_page s - 1) \<and>
         raised (next_page h s) = None \<and> raised (prev_page h s) = None"
proof -
  have "doc_pages d \<noteq> []"
    using assms(3,4) by (auto simp add: page_count_def)
  with assms show ?thesis
    by (simp add: current_page_next current_page_prev next_prev_return)
qed

theorem next_prev_bounds_witness:
  "current_page (state_of (prev_page example_heights opened)) = 0 \<and>
   current_page (state_of (next_page example_heights opened)) = 1 \<and>
   current_page (state_of (next_page example_heights on_last_page)) = 2 \<and>
   current_page (state_of (prev_page example_heights on_last_page)) = 1"
  using next_prev_bounds [of opened example_doc example_heights]
    next_prev_bounds [of on_last_page example_doc example_heights]
  by (simp add: on_last_page_eq example_docs) (simp add: opened_eq)

section \<open>Zooming in and out again\<close>

text \<open>
  C6, as the code has it. From a zoom factor between 0.2 and 4.8, \<open>zoom_in\<close> followed
  by \<open>zoom_out\<close> gives the zoom factor back. (On real numbers the equality is exact;
  Python's floats add a rounding error of the last bit.)
\<close>

theorem zoom_in_then_out:
  assumes "0.2 \<le> zoom_level s" and "zoom_level s \<le> 4.8"
  shows "zoom_level (state_of (zoom_out (state_of (zoom_in s)))) = zoom_level s"
  using assms by (simp add: zoom_level_zoom_in zoom_level_zoom_out)

theorem zoom_in_then_out_witness:
  "zoom_level opened = 1 \<and> zoom_level (state_of (zoom_out (state_of (zoom_in opened)))) = 1"
proof -
  have z: "zoom_level opened = 1"
    by (simp add: opened_eq)
  have lo: "0.2 \<le> zoom_level opened" and hi: "zoom_level opened \<le> 4.8"
    by (simp_all add: z)
  from zoom_in_then_out [OF lo hi] z show ?thesis
    by simp
qed

text \<open>
  C6 as stated fails above 4.8: at 5.0 \<open>zoom_in\<close> is stopped by the upper bound, and
  \<open>zoom_out\<close> then goes down to 4.8, a whole step away from the start.
\<close>

theorem zoom_in_then_out_counterexample:
  "0.2 \<le> zoom_level at_full_zoom \<and> zoom_level at_full_zoom \<le> 5.0 \<and>
   zoom_level at_full_zoom = 5.0 \<and>
   zoom_level (state_of (zoom_out (state_of (zoom_in at_full_zoom)))) = 4.8 \<and>
   zoom_level (state_of (zoom_out (state_of (zoom_in at_full_zoom)))) \<noteq>
     zoom_level at_full_zoom"
proof -
  have "zoom_level opened = 1"
    by (simp add: opened_eq)
  then have top: "zoom_level at_full_zoom = 5.0"
    by (simp add: at_full_zoom_def numeral_eq_Suc zoom_level_zoom_in)
  then show ?thesis
    by (simp add: zoom_level_zoom_in zoom_level_zoom_out)
qed

section \<open>A failed open\<close>

text \<open>
  C3 at a file that cannot be opened. The three-page document is shown, on its last
  page, and \<open>open_file\<close> is given a path on which \<open>fitz.open\<close> raises. The error is
  shown, and \<open>self.pdf_document\<close> is left holding the handle of the previous document,
  closed, under the gallery of that document. From then on the test of the document
  raises \<open>ValueError\<close> in every handler that makes it: keys, page turns, zoom and toggle
  all raise. Opening a good file raises at the same test, inside the \<open>try\<close>: a second
  error is shown and nothing is opened.
\<close>

theorem failed_open_leaves_closed_handle:
  "pdf_document on_last_page = Some example_doc \<and> \<not> is_closed example_doc \<and>
   example_open ''missing.pdf'' = None \<and>
   pdf_document after_failed_open = Some (close example_doc) \<and>
   is_closed (close example_doc) \<and>
   page_images after_failed_open = page_images on_last_page \<and>
   current_page after_failed_open = 2 \<and>
   messages after_failed_open = [Critical] \<and>
   raised (keyPressEvent example_heights Key_Right after_failed_open) = Some ValueError \<and>
   raised (next_page example_heights after_failed_open) = Some ValueError \<and>
   raised (zoom_in after_failed_open) = Some ValueError \<and>
   raised (toggle_color_invert after_failed_open) = Some ValueError \<and>
   example_open ''a.pdf'' = Some (doc_pages example_doc) \<and>
   open_file example_heights example_open ''a.pdf'' after_failed_open =
     after_failed_open\<lparr>messages := [Critical, Critical]\<rparr>"
proof -
  have doc: "pdf_document on_last_page = Some example_doc"
    and cp: "current_page on_last_page = 2"
    by (simp_all add: on_last_page_eq) (simp_all add: opened_eq)
  have closed: "pdf_document after_failed_open = Some (close example_doc)"
    "is_closed (close example_doc)"
    by (simp_all add: after_failed_open_eq close_def)
  have stale: "page_images after_failed_open = page_images on_last_page"
    "current_page after_failed_open = 2" "messages after_failed_open = [Critical]"
    by (simp_all add: after_failed_open_eq cp)
  have raises: "truthy (pdf_document after_failed_open) = Raises ValueError"
    by (simp add: closed)
  have handlers:
    "raised (keyPressEvent example_heights Key_Right after_failed_open) = Some ValueError"
    "raised (next_page example_heights after_failed_open) = Some ValueError"
    "raised (zoom_in after_failed_open) = Some ValueError"
    "raised (toggle_color_invert after_failed_open) = Some ValueError"
    by (simp_all add: keyPressEvent_def next_page_def settings_raised render_all_pages_raised
        raises)
  have again: "open_file example_heights example_open ''a.pdf'' after_failed_open =
                 after_failed_open\<lparr>messages := [Critical, Critical]\<rparr>"
    by (simp add: open_file_def open_failed_def raises stale)
  show ?thesis
    using doc closed stale handlers again
    by (simp add: example_docs example_open_def)
qed

section \<open>Jumping to a page\<close>

text \<open>
  C5 after a document without pages. Opening the file without pages calls
  \<open>setMaximum(0)\<close>, which takes the minimum of the spin box from 1 down to 0, and no
  later call raises it again. With the three-page document opened next, the spin box
  accepts 0 and \<open>jump_to_page\<close> stores \<open>0 - 1\<close>: the current page is \<open>-1\<close>, where the
  clamp of the spec gives 0.
\<close>

theorem spin_box_below_first_page:
  "example_open ''empty.pdf'' = Some [] \<and>
   pdf_document after_empty = Some example_doc \<and> \<not> is_closed example_doc \<and>
   page_count example_doc = 3 \<and>
   current_page after_empty = 0 \<and>
   spin_minimum after_empty = 0 \<and> spin_maximum after_empty = 3 \<and>
   spin_setValue example_heights 0 after_empty =
     jump_to_page example_heights 0 (after_empty\<lparr>spin_value := 0\<rparr>) \<and>
   raised (spin_setValue example_heights 0 after_empty) = None \<and>
   current_page (state_of (spin_setValue example_heights 0 after_empty)) = - 1 \<and>
   clamp (- 1) 0 (page_count example_doc - 1) = 0"
proof -
  have s: "pdf_document after_empty = Some example_doc" "current_page after_empty = 0"
    "spin_minimum after_empty = 0" "spin_maximum after_empty = 3" "spin_value after_empty = 1"
    by (simp_all add: after_empty_eq opened_eq)
  have live: "\<not> is_closed example_doc" and pages: "doc_pages example_doc \<noteq> []"
    by (simp_all add: example_docs)
  have spin: "spin_setValue example_heights 0 after_empty =
                jump_to_page example_heights 0 (after_empty\<lparr>spin_value := 0\<rparr>)"
    by (simp add: spin_setValue_def spin_bound_def s)
  have returns: "raised (spin_setValue example_heights 0 after_empty) = None"
    by (simp add: spin jump_to_page_raised s live pages)
  have page: "current_page (state_of (spin_setValue example_heights 0 after_empty)) = - 1"
    using current_page_jump [of "after_empty\<lparr>spin_value := 0\<rparr>" example_doc example_heights 0]
    by (simp add: spin s live pages)
  show ?thesis
    using s live spin returns page
    by (simp add: example_open_def example_docs clamp_def)
qed

end
